theory Spec2Isabelle
  imports Main "HOL-Library.Sublist"
begin

section \<open>JavaScript strings\<close>

text \<open>
  A JavaScript string is a sequence of UTF-16 code units; a code unit is modelled as a
  natural number below \<open>2 ^ 16\<close>.  String literals of the source are written with
  \<open>js\<close>, which maps an ASCII literal to its code units.
\<close>

type_synonym jsstring = "nat list"

definition js :: "string \<Rightarrow> jsstring" where
  "js s = map of_char s"

text \<open>
  The characters matched by \<open>\s\<close> in a regular expression, which are also the ones
  removed by \<open>String.prototype.trim\<close> (WhiteSpace and LineTerminator of ECMAScript).
\<close>

definition isWhiteSpace :: "nat \<Rightarrow> bool" where
  "isWhiteSpace c \<longleftrightarrow>
     (9 \<le> c \<and> c \<le> 13) \<or> c = 32 \<or> c = 160 \<or> c = 5760 \<or>
     (8192 \<le> c \<and> c \<le> 8202) \<or> c = 8232 \<or> c = 8233 \<or> c = 8239 \<or>
     c = 8287 \<or> c = 12288 \<or> c = 65279"

definition trim :: "jsstring \<Rightarrow> jsstring" where
  "trim s = rev (dropWhile isWhiteSpace (rev (dropWhile isWhiteSpace s)))"

text \<open>
  \<open>s.split(sep)\<close> for a one-character separator.  The result is never empty:
  \<open>"".split("|")\<close> is \<open>[""]\<close>.
\<close>

fun split :: "nat \<Rightarrow> jsstring \<Rightarrow> jsstring list" where
  "split sep [] = [[]]"
| "split sep (c # cs) =
     (if c = sep then [] # split sep cs
      else (case split sep cs of
              [] \<Rightarrow> [[c]]
            | p # ps \<Rightarrow> (c # p) # ps))"

definition startsWith :: "jsstring \<Rightarrow> jsstring \<Rightarrow> bool" where
  "startsWith s p \<longleftrightarrow> take (length p) s = p"

section \<open>Documents, style sheets and the external environment\<close>

text \<open>
  The element tree the HTML parser builds.  An element has its \<open>tagName\<close> as the DOM
  reports it, its attributes in order (name and value) and its child nodes.

  A \<open>template\<close> element (\<open>tagName\<close> \<open>TEMPLATE\<close>) is a node of its own kind: the
  parser puts what stands between its tags into the \<open>content\<close> fragment of the element
  and not among its child nodes.  The nodes of the content are no descendants of the
  element, so \<open>querySelectorAll\<close> does not reach them, while \<open>outerHTML\<close> writes
  them.  In happy-dom, the DOM this entry point imports, \<open>firstChild\<close> of a template
  element is the first node of its content, and inserting that node elsewhere takes it
  out of the content.
\<close>

datatype node =
    Element jsstring "(jsstring \<times> jsstring) list" "node list"
  | Template "(jsstring \<times> jsstring) list" "node list"
  | Text jsstring
  | Comment jsstring

text \<open>
  The tree the CSS parser builds: declarations, style rules, at-rules and comments.  The
  last component of a declaration is its formatting and priority, which only the
  serialiser reads.
\<close>

datatype cssNode =
    Decl jsstring jsstring jsstring
  | Rule jsstring "cssNode list"
  | AtRule jsstring jsstring "cssNode list"
  | CssComment jsstring

text \<open>A parsed style sheet: the formatting of the root and its nodes.\<close>

type_synonym cssRoot = "jsstring \<times> cssNode list"

text \<open>The nodes of a parsed CSS value: functions with their arguments, and everything else.\<close>

datatype valueNode =
    VFunction jsstring "valueNode list"
  | VOther jsstring jsstring

datatype error = TypeError

text \<open>
  The external collaborators of the sanitizer, none of which is code of this repository.
  \<^item> \<open>unicodeLower pre c post\<close> is the Unicode lower-case table outside ASCII: what
    the code unit \<open>c\<close> lower-cases to between \<open>pre\<close> and \<open>post\<close> (the context
    matters for a few letters such as the final sigma).  ASCII letters are lower-cased by
    the model itself.
  \<^item> \<open>parseFromString\<close> is \<open>DOMParser.parseFromString(html, "text/html").documentElement\<close>.
  \<^item> \<open>outerHTML\<close> serialises an element.
  \<^item> \<open>purify html tags attrs\<close> is DOMPurify's \<open>sanitize\<close> with \<open>ALLOWED_TAGS\<close>,
    \<open>ALLOWED_ATTR\<close> and \<open>WHOLE_DOCUMENT: true\<close>.
  \<^item> \<open>postcssParse\<close> is \<open>postcss.parse\<close>, \<open>None\<close> when it throws; \<open>postcssToString\<close>
    is \<open>root.toString()\<close>; \<open>ruleSelectors\<close> is the \<open>selectors\<close> of a rule, computed
    from its selector text.
  \<^item> \<open>valueParser\<close> is \<open>postcss-value-parser\<close>.
\<close>

record env =
  unicodeLower :: "jsstring \<Rightarrow> nat \<Rightarrow> jsstring \<Rightarrow> jsstring"
  parseFromString :: "jsstring \<Rightarrow> node"
  outerHTML :: "node \<Rightarrow> jsstring"
  purify :: "jsstring \<Rightarrow> jsstring list \<Rightarrow> jsstring list \<Rightarrow> jsstring"
  postcssParse :: "jsstring \<Rightarrow> cssRoot option"
  postcssToString :: "cssRoot \<Rightarrow> jsstring"
  ruleSelectors :: "jsstring \<Rightarrow> jsstring list"
  valueParser :: "jsstring \<Rightarrow> valueNode list"

fun lowerFrom :: "env \<Rightarrow> jsstring \<Rightarrow> jsstring \<Rightarrow> jsstring" where
  "lowerFrom E pre [] = []"
| "lowerFrom E pre (c # cs) =
     (if 65 \<le> c \<and> c \<le> 90 then [c + 32]
      else if c < 128 then [c]
      else unicodeLower E pre c cs) @ lowerFrom E (pre @ [c]) cs"

definition toLowerCase :: "env \<Rightarrow> jsstring \<Rightarrow> jsstring" where
  "toLowerCase E s = lowerFrom E [] s"

section \<open>Policies and the rule compiler\<close>

text \<open>
  The config: each field may be absent (\<open>None\<close>), and the code then takes its default.
  \<open>maxPasses\<close> is an integer, as the specification has it.
\<close>

record SanitizerConfig =
  allowCommonAttributes :: "bool option"
  allowJavaScript :: "bool option"
  maxPasses :: "int option"

text \<open>
  A JavaScript \<open>Map\<close> is an association list with distinct keys in insertion order, a
  \<open>Set\<close> a list without repetitions in insertion order.
\<close>

type_synonym ('k, 'v) jsmap = "('k \<times> 'v) list"

fun mapSet :: "('k, 'v) jsmap \<Rightarrow> 'k \<Rightarrow> 'v \<Rightarrow> ('k, 'v) jsmap" where
  "mapSet [] k v = [(k, v)]"
| "mapSet ((k', v') # m) k v =
     (if k' = k then (k, v) # m else (k', v') # mapSet m k v)"

definition mapHas :: "('k, 'v) jsmap \<Rightarrow> 'k \<Rightarrow> bool" where
  "mapHas m k \<longleftrightarrow> map_of m k \<noteq> None"

definition setAdd :: "'a list \<Rightarrow> 'a \<Rightarrow> 'a list" where
  "setAdd xs x = (if x \<in> set xs then xs else xs @ [x])"

record CompiledPolicy =
  tagCounts :: "(jsstring, int) jsmap"
  attrAllowlist :: "(jsstring, jsstring list) jsmap"
  styleAllowlist :: "(jsstring, jsstring list) jsmap"
  config :: SanitizerConfig

text \<open>\<open>m.get(k)!.add(x)\<close> after \<open>if (!m.has(k)) m.set(k, new Set())\<close>.\<close>

definition addToSet ::
  "(jsstring, jsstring list) jsmap \<Rightarrow> jsstring \<Rightarrow> jsstring \<Rightarrow> (jsstring, jsstring list) jsmap"
where
  "addToSet m k x =
     (let m1 = (if mapHas m k then m else mapSet m k [])
      in case map_of m1 k of
           None \<Rightarrow> m1
         | Some s \<Rightarrow> mapSet m1 k (setAdd s x))"

text \<open>What an allowlist holds under a key, read as a set: nothing when the key is absent.\<close>

definition allowedIn :: "(jsstring, jsstring list) jsmap \<Rightarrow> jsstring \<Rightarrow> jsstring set" where
  "allowedIn m k = (case map_of m k of None \<Rightarrow> {} | Some s \<Rightarrow> set s)"

text \<open>The body of the loop of \<open>compileRules\<close>: one rule, applied to the three maps.\<close>

definition compileRule :: "env \<Rightarrow> CompiledPolicy \<Rightarrow> jsstring \<Rightarrow> CompiledPolicy" where
  "compileRule E p rule =
     (let parts = map trim (split 124 rule) in
      if length parts = 1 then
        (let tag = toLowerCase E (parts ! 0) in
         if tag = [] then p
         else p\<lparr>tagCounts :=
                  mapSet (tagCounts p) tag
                    ((case map_of (tagCounts p) tag of None \<Rightarrow> 0 | Some n \<Rightarrow> n) + 1)\<rparr>)
      else if length parts = 2 then
        (let tag = toLowerCase E (parts ! 0);
             attr = toLowerCase E (parts ! 1) in
         if tag = [] \<or> attr = [] then p
         else p\<lparr>attrAllowlist := addToSet (attrAllowlist p) tag attr\<rparr>)
      else if length parts = 3 \<and> toLowerCase E (parts ! 0) = js ''style'' then
        (let selector = parts ! 1;
             property = toLowerCase E (parts ! 2) in
         if selector = [] \<or> property = [] then p
         else p\<lparr>styleAllowlist := addToSet (styleAllowlist p) selector property\<rparr>)
      else p)"

definition compileRules :: "env \<Rightarrow> jsstring list \<Rightarrow> SanitizerConfig \<Rightarrow> CompiledPolicy" where
  "compileRules E rules cfg =
     foldl (compileRule E)
       \<lparr>tagCounts = [], attrAllowlist = [], styleAllowlist = [], config = cfg\<rparr> rules"

section \<open>The URL danger check\<close>

definition isHexDigit :: "nat \<Rightarrow> bool" where
  "isHexDigit c \<longleftrightarrow> (48 \<le> c \<and> c \<le> 57) \<or> (65 \<le> c \<and> c \<le> 70) \<or> (97 \<le> c \<and> c \<le> 102)"

definition digitValue :: "nat \<Rightarrow> nat" where
  "digitValue c =
     (if 48 \<le> c \<and> c \<le> 57 then c - 48
      else if 97 \<le> c \<and> c \<le> 122 then c - 87
      else if 65 \<le> c \<and> c \<le> 90 then c - 55
      else 36)"

text \<open>
  \<open>parseInt(s, radix)\<close> on a string without leading white space, sign or prefix: the
  value of the longest prefix of digits of the radix, \<open>None\<close> for \<open>NaN\<close>.  The value is
  kept exact; the source only compares it with \<open>0x10ffff\<close>, which rounding to a double
  (or to \<open>Infinity\<close>) does not change.
\<close>

definition parseInt :: "jsstring \<Rightarrow> nat \<Rightarrow> nat option" where
  "parseInt s radix =
     (let ds = takeWhile (\<lambda>c. digitValue c < radix) s
      in if ds = [] then None
         else Some (foldl (\<lambda>a c. a * radix + digitValue c) 0 ds))"

definition fromCodePoint :: "nat \<Rightarrow> jsstring" where
  "fromCodePoint n =
     (if n < 65536 then [n]
      else [55296 + (n - 65536) div 1024, 56320 + (n - 65536) mod 1024])"

text \<open>The callback of the \<open>replace\<close>: \<open>match\<close> is the whole match, \<open>raw\<close> the group.\<close>

definition replaceReference :: "env \<Rightarrow> jsstring \<Rightarrow> jsstring \<Rightarrow> jsstring" where
  "replaceReference E match raw =
     (case (if startsWith (toLowerCase E raw) (js ''x'') then parseInt (drop 1 raw) 16
            else parseInt raw 10) of
        None \<Rightarrow> match
      | Some codePoint \<Rightarrow> if codePoint > 1114111 then match else fromCodePoint codePoint)"

text \<open>
  A match of \<open>/&#(x?[0-9a-fA-F]+);?/\<close> at the head of the string, given what follows
  \<open>&#\<close>: the whole match and the group.
\<close>

definition matchReference :: "jsstring \<Rightarrow> (jsstring \<times> jsstring) option" where
  "matchReference s =
     (let hasX = (case s of c # d # _ \<Rightarrow> c = 120 \<and> isHexDigit d | _ \<Rightarrow> False);
          s1 = (if hasX then drop 1 s else s);
          digits = takeWhile isHexDigit s1;
          tail = dropWhile isHexDigit s1;
          semi = (case tail of c # _ \<Rightarrow> c = 59 | [] \<Rightarrow> False);
          raw = (if hasX then [120] else []) @ digits
      in if digits = [] then None
         else Some ([38, 35] @ raw @ (if semi then [59] else []), raw))"

function decodeNumericCharacterReferences :: "env \<Rightarrow> jsstring \<Rightarrow> jsstring" where
  "decodeNumericCharacterReferences E [] = []"
| "decodeNumericCharacterReferences E (c # cs) =
     (if c = 38 \<and> take 1 cs = [35] then
        (case matchReference (drop 1 cs) of
           None \<Rightarrow> c # decodeNumericCharacterReferences E cs
         | Some (match, raw) \<Rightarrow>
             replaceReference E match raw
               @ decodeNumericCharacterReferences E (drop (length match - 1) cs))
      else c # decodeNumericCharacterReferences E cs)"
  by pat_completeness auto
termination
  by (relation "measure (\<lambda>(E, s). length s)") (auto simp: matchReference_def Let_def split: if_splits)

definition isDangerousUrl :: "env \<Rightarrow> jsstring \<Rightarrow> bool" where
  "isDangerousUrl E v =
     (let decoded = decodeNumericCharacterReferences E v;
          compact = toLowerCase E
            (filter (\<lambda>c. \<not> (c \<le> 31 \<or> c = 127 \<or> isWhiteSpace c)) decoded)
      in startsWith compact (js ''javascript:'') \<or> startsWith compact (js ''data:''))"

definition isDangerousSrcset :: "env \<Rightarrow> jsstring \<Rightarrow> bool" where
  "isDangerousSrcset E v =
     list_ex (\<lambda>entry.
        let urlPart = takeWhile (\<lambda>c. \<not> isWhiteSpace c) (trim entry)
        in urlPart \<noteq> [] \<and> isDangerousUrl E urlPart) (split 44 v)"

definition isDangerousUrlValue :: "env \<Rightarrow> jsstring \<Rightarrow> jsstring \<Rightarrow> bool" where
  "isDangerousUrlValue E attrName v =
     (if attrName = js ''srcset'' then isDangerousSrcset E v else isDangerousUrl E v)"

section \<open>The CSS filter\<close>

text \<open>
  \<open>isSafeCssValue\<close>: the walk of the value's nodes sets \<open>hasUrl\<close> at a function named
  \<open>url\<close> (in any case) and does not descend into it; it descends into every other
  function.
\<close>

fun walkHasUrl :: "env \<Rightarrow> valueNode list \<Rightarrow> bool" where
  "walkHasUrl E [] = False"
| "walkHasUrl E (VFunction name args # ns) =
     (if toLowerCase E name = js ''url'' then True
      else walkHasUrl E args \<or> walkHasUrl E ns)"
| "walkHasUrl E (VOther ty v # ns) = walkHasUrl E ns"

definition isSafeCssValue :: "env \<Rightarrow> jsstring \<Rightarrow> bool" where
  "isSafeCssValue E v \<longleftrightarrow> \<not> walkHasUrl E (valueParser E v)"

text \<open>\<open>root.walkAtRules((atRule) => atRule.remove())\<close>: every at-rule goes, at any depth.\<close>

fun removeAtRules :: "cssNode list \<Rightarrow> cssNode list" where
  "removeAtRules [] = []"
| "removeAtRules (AtRule name params kids # ns) = removeAtRules ns"
| "removeAtRules (Rule sel kids # ns) = Rule sel (removeAtRules kids) # removeAtRules ns"
| "removeAtRules (n # ns) = n # removeAtRules ns"

text \<open>
  The declarations of a rule that go into the new rule for a selector: those whose
  trimmed, lower-cased property is allowed and whose value is safe, cloned as they are.
\<close>

fun keepDecl :: "env \<Rightarrow> jsstring list \<Rightarrow> cssNode \<Rightarrow> bool" where
  "keepDecl E allowedProps (Decl prop v raws) \<longleftrightarrow>
     toLowerCase E (trim prop) \<in> set allowedProps \<and> isSafeCssValue E v"
| "keepDecl E allowedProps n \<longleftrightarrow> False"

definition newRules ::
  "env \<Rightarrow> (jsstring, jsstring list) jsmap \<Rightarrow> jsstring list \<Rightarrow> cssNode list \<Rightarrow> cssNode list"
where
  "newRules E styleAllow allowedSelectors kids =
     concat (map (\<lambda>selector.
        case map_of styleAllow selector of
          None \<Rightarrow> []
        | Some allowedProps \<Rightarrow>
            (let decls = filter (keepDecl E allowedProps) kids
             in if decls \<noteq> [] then [Rule selector decls] else [])) allowedSelectors)"

text \<open>
  The loop over the collected rules, as it acts on the nodes of the root.  A rule of the
  root is replaced by its new rules (by nothing when no selector of it is allowed).  A rule
  nested in another rule comes later in the collected list than the rule around it, which
  by then is removed from the root: what the loop does to it does not reach the root.
  Declarations and comments of the root are not rules and stay.
\<close>

fun filterRootNode :: "env \<Rightarrow> (jsstring, jsstring list) jsmap \<Rightarrow> cssNode \<Rightarrow> cssNode list" where
  "filterRootNode E styleAllow (Rule sel kids) =
     (let allowedSelectors = filter (mapHas styleAllow) (map trim (ruleSelectors E sel))
      in if allowedSelectors = [] then []
         else newRules E styleAllow allowedSelectors kids)"
| "filterRootNode E styleAllow n = [n]"

text \<open>The nodes of the root after the at-rules are removed and the rules rewritten.\<close>

definition filterCssRoot ::
  "env \<Rightarrow> cssNode list \<Rightarrow> (jsstring, jsstring list) jsmap \<Rightarrow> cssNode list"
where
  "filterCssRoot E nodes styleAllow =
     concat (map (filterRootNode E styleAllow) (removeAtRules nodes))"

definition filterCss :: "env \<Rightarrow> jsstring \<Rightarrow> (jsstring, jsstring list) jsmap \<Rightarrow> jsstring" where
  "filterCss E cssText styleAllow =
     (case postcssParse E cssText of
        None \<Rightarrow> []
      | Some (raws, nodes) \<Rightarrow> postcssToString E (raws, filterCssRoot E nodes styleAllow))"

text \<open>
  \<open>textContent\<close> of an element, from its child nodes: the text of the descendants.
  The content of a template element is not among them.
\<close>

fun textContent :: "node list \<Rightarrow> jsstring" where
  "textContent [] = []"
| "textContent (Text t # ns) = t @ textContent ns"
| "textContent (Comment t # ns) = textContent ns"
| "textContent (Element name attrs kids # ns) = textContent kids @ textContent ns"
| "textContent (Template attrs content # ns) = textContent ns"

text \<open>
  \<open>filterStyleElement\<close> on the children of a style element: \<open>None\<close> when the element
  is removed, the new text content otherwise.
\<close>

definition filterStyleElement ::
  "env \<Rightarrow> node list \<Rightarrow> (jsstring, jsstring list) jsmap \<Rightarrow> jsstring option"
where
  "filterStyleElement E kids styleAllow =
     (let css = textContent kids;
          filtered = filterCss E css styleAllow
      in if trim filtered = [] then None else Some filtered)"

fun joinWith :: "jsstring \<Rightarrow> jsstring list \<Rightarrow> jsstring" where
  "joinWith sep [] = []"
| "joinWith sep [x] = x"
| "joinWith sep (x # y # ys) = x @ sep @ joinWith sep (y # ys)"

fun isRule :: "cssNode \<Rightarrow> bool" where
  "isRule (Rule sel kids) = True"
| "isRule n = False"

fun inlineDecl :: "env \<Rightarrow> cssNode \<Rightarrow> jsstring" where
  "inlineDecl E (Decl prop v raws) = toLowerCase E (trim prop) @ js '':'' @ trim v"
| "inlineDecl E n = []"

definition inlineAllowedProps :: "jsstring \<Rightarrow> (jsstring, jsstring list) jsmap \<Rightarrow> jsstring list" where
  "inlineAllowedProps tag styleAllow =
     foldl setAdd
       (foldl setAdd [] (case map_of styleAllow (js ''*'') of None \<Rightarrow> [] | Some w \<Rightarrow> w))
       (case map_of styleAllow tag of None \<Rightarrow> [] | Some t \<Rightarrow> t)"

definition filterInlineStyle ::
  "env \<Rightarrow> jsstring \<Rightarrow> jsstring \<Rightarrow> (jsstring, jsstring list) jsmap \<Rightarrow> jsstring"
where
  "filterInlineStyle E tag v styleAllow =
     (let allowedProps = inlineAllowedProps tag styleAllow in
      if allowedProps = [] then []
      else case postcssParse E (js ''a{'' @ v @ js ''}'') of
             None \<Rightarrow> []
           | Some (raws, nodes) \<Rightarrow>
               (case find isRule nodes of
                  Some (Rule sel kids) \<Rightarrow>
                    joinWith (js '';'') (map (inlineDecl E) (filter (keepDecl E allowedProps) kids))
                | _ \<Rightarrow> []))"

section \<open>The attribute filter\<close>

definition COMMON_GLOBAL_ATTRS :: "jsstring list" where
  "COMMON_GLOBAL_ATTRS = [js ''class'', js ''id'']"

definition COMMON_ATTRS :: "(jsstring, jsstring list) jsmap" where
  "COMMON_ATTRS =
     [(js ''a'', [js ''href'', js ''title'', js ''target'', js ''rel'']),
      (js ''img'', [js ''src'', js ''alt'', js ''title'', js ''width'', js ''height'']),
      (js ''html'', [js ''lang''])]"

definition STRUCTURAL_TAGS :: "jsstring list" where
  "STRUCTURAL_TAGS = [js ''html'', js ''head'', js ''body'']"

definition URL_ATTRS :: "jsstring list" where
  "URL_ATTRS =
     [js ''href'', js ''src'', js ''xlink:href'', js ''action'', js ''formaction'',
      js ''poster'', js ''srcset'', js ''data'', js ''codebase'', js ''archive'', js ''cite'',
      js ''longdesc'', js ''usemap'', js ''background'', js ''profile'', js ''icon'',
      js ''manifest'']"

text \<open>
  \<open>COMMON_ATTRS[tag]\<close> followed by \<open>for (const attr of common)\<close>.  \<open>COMMON_ATTRS\<close> is
  an object literal, so the lookup also finds what \<open>Object.prototype\<close> holds under the
  names below.  Those values are functions or an object: truthy and not iterable, so the
  loop over them raises a TypeError.
\<close>

definition OBJECT_PROTOTYPE_NAMES :: "jsstring list" where
  "OBJECT_PROTOTYPE_NAMES =
     [js ''constructor'', js ''__defineGetter__'', js ''__defineSetter__'',
      js ''hasOwnProperty'', js ''__lookupGetter__'', js ''__lookupSetter__'',
      js ''isPrototypeOf'', js ''propertyIsEnumerable'', js ''toString'', js ''valueOf'',
      js ''__proto__'', js ''toLocaleString'']"

definition commonAttrsOf :: "jsstring \<Rightarrow> error + jsstring list" where
  "commonAttrsOf tag =
     (case map_of COMMON_ATTRS tag of
        Some common \<Rightarrow> Inr common
      | None \<Rightarrow>
          if tag \<in> set OBJECT_PROTOTYPE_NAMES then Inl TypeError
          else Inr [])"

definition allowedAttrsFor ::
  "jsstring \<Rightarrow> (jsstring, jsstring list) jsmap \<Rightarrow> bool \<Rightarrow> error + jsstring list"
where
  "allowedAttrsFor tag attrAllow allowCommon =
     (let declared = foldl setAdd [] (case map_of attrAllow tag of None \<Rightarrow> [] | Some s \<Rightarrow> s) in
      if allowCommon then
        (case commonAttrsOf tag of
           Inl e \<Rightarrow> Inl e
         | Inr common \<Rightarrow> Inr (foldl setAdd (foldl setAdd declared COMMON_GLOBAL_ATTRS) common))
      else Inr declared)"

text \<open>
  \<open>removeAttribute\<close> removes the first attribute of that name, \<open>setAttribute\<close> sets the
  value of the first attribute of that name and adds the attribute when there is none.
\<close>

fun removeAttribute :: "jsstring \<Rightarrow> (jsstring \<times> jsstring) list \<Rightarrow> (jsstring \<times> jsstring) list" where
  "removeAttribute n [] = []"
| "removeAttribute n ((k, v) # as) = (if k = n then as else (k, v) # removeAttribute n as)"

fun setAttribute ::
  "jsstring \<Rightarrow> jsstring \<Rightarrow> (jsstring \<times> jsstring) list \<Rightarrow> (jsstring \<times> jsstring) list"
where
  "setAttribute n v [] = [(n, v)]"
| "setAttribute n v ((k, w) # as) = (if k = n then (k, v) # as else (k, w) # setAttribute n v as)"

text \<open>
  One round of the loop over the snapshot \<open>Array.from(element.attributes)\<close>: \<open>cur\<close> is
  the attribute list of the element as it is now, \<open>(attrName, attrValue)\<close> the attribute
  of the snapshot.
\<close>

definition filterAttribute ::
  "env \<Rightarrow> jsstring \<Rightarrow> jsstring list \<Rightarrow> (jsstring, jsstring list) jsmap \<Rightarrow> bool \<Rightarrow>
   (jsstring \<times> jsstring) list \<Rightarrow> jsstring \<times> jsstring \<Rightarrow> (jsstring \<times> jsstring) list"
where
  "filterAttribute E tag allowedAttrs styleAllow allowJS cur attr =
     (let attrName = fst attr; attrValue = snd attr;
          name = toLowerCase E attrName in
      if \<not> allowJS \<and> startsWith name (js ''on'') then removeAttribute attrName cur
      else if name \<notin> set allowedAttrs then removeAttribute attrName cur
      else if name = js ''style'' then
        (let filtered = filterInlineStyle E tag attrValue styleAllow in
         if length filtered = 0 then removeAttribute attrName cur
         else setAttribute attrName filtered cur)
      else if \<not> allowJS \<and> name \<in> set URL_ATTRS \<and> isDangerousUrlValue E name attrValue
        then removeAttribute attrName cur
      else cur)"

definition filterAttributes ::
  "env \<Rightarrow> (jsstring \<times> jsstring) list \<Rightarrow> jsstring \<Rightarrow> (jsstring, jsstring list) jsmap \<Rightarrow>
   (jsstring, jsstring list) jsmap \<Rightarrow> bool \<Rightarrow> bool \<Rightarrow> error + (jsstring \<times> jsstring) list"
where
  "filterAttributes E attrs tag attrAllow styleAllow allowCommon allowJS =
     (case allowedAttrsFor tag attrAllow allowCommon of
        Inl e \<Rightarrow> Inl e
      | Inr allowedAttrs \<Rightarrow>
          Inr (foldl (filterAttribute E tag allowedAttrs styleAllow allowJS) attrs attrs))"

section \<open>The defense-in-depth pass\<close>

definition policyAllowJS :: "CompiledPolicy \<Rightarrow> bool" where
  "policyAllowJS P = (case allowJavaScript (config P) of None \<Rightarrow> False | Some b \<Rightarrow> b)"

definition policyAllowCommon :: "CompiledPolicy \<Rightarrow> bool" where
  "policyAllowCommon P = (case allowCommonAttributes (config P) of None \<Rightarrow> False | Some b \<Rightarrow> b)"

definition applyDomPurify :: "env \<Rightarrow> jsstring \<Rightarrow> CompiledPolicy \<Rightarrow> jsstring" where
  "applyDomPurify E html P =
     (let allowedTagSet = foldl setAdd (foldl setAdd [] (map fst (tagCounts P))) STRUCTURAL_TAGS;
          allowedTags = (if \<not> policyAllowJS P then filter (\<lambda>t. t \<noteq> js ''script'') allowedTagSet
                         else allowedTagSet);
          declared = foldl setAdd [] (concat (map snd (attrAllowlist P)));
          allowedAttrs =
            (if allowCommonAttributes (config P) = Some True
             then foldl setAdd (foldl setAdd declared COMMON_GLOBAL_ATTRS)
                    (concat (map snd COMMON_ATTRS))
             else declared)
      in purify E html allowedTags allowedAttrs)"

section \<open>One filtering pass\<close>

definition isStructural :: "jsstring \<Rightarrow> bool" where
  "isStructural tag \<longleftrightarrow> tag \<in> set STRUCTURAL_TAGS"

definition allowedCount :: "CompiledPolicy \<Rightarrow> jsstring \<Rightarrow> int" where
  "allowedCount P tag = (case map_of (tagCounts P) tag of None \<Rightarrow> 0 | Some n \<Rightarrow> n)"

definition allowStyleTag :: "CompiledPolicy \<Rightarrow> bool" where
  "allowStyleTag P \<longleftrightarrow> allowedCount P (js ''style'') > 0 \<and> length (styleAllowlist P) > 0"

definition totalAllowedTags :: "CompiledPolicy \<Rightarrow> int" where
  "totalAllowedTags P = sum_list (map snd (filter (\<lambda>(tag, count). \<not> isStructural tag) (tagCounts P)))"

record PassState =
  usedTagCounts :: "jsstring \<rightharpoonup> int"
  usedTotalTags :: int
  countsSaturated :: bool

definition usedCount :: "PassState \<Rightarrow> jsstring \<Rightarrow> int" where
  "usedCount st tag = (case usedTagCounts st tag of None \<Rightarrow> 0 | Some n \<Rightarrow> n)"

text \<open>
  What the loop body decides for a connected element before its attributes are filtered:
  the element is removed with its subtree, unwrapped, or kept (with the counters as they
  are after counting it).
\<close>

datatype verdict = Remove | Unwrap | Keep PassState

definition enforceTag :: "CompiledPolicy \<Rightarrow> PassState \<Rightarrow> jsstring \<Rightarrow> verdict" where
  "enforceTag P st tag =
     (if \<not> policyAllowJS P \<and> tag = js ''script'' then Remove
      else if tag = js ''style'' \<and> \<not> allowStyleTag P then Remove
      else if \<not> isStructural tag then
        (if countsSaturated st then
           (if allowedCount P tag = 0 then Unwrap else Remove)
         else if allowedCount P tag = 0 then Unwrap
         else if usedCount st tag \<ge> allowedCount P tag then Remove
         else Keep (st\<lparr>usedTagCounts := (usedTagCounts st)(tag \<mapsto> usedCount st tag + 1),
                       usedTotalTags := usedTotalTags st + 1\<rparr>))
      else Keep st)"

text \<open>The update of the saturation flag after the attributes of a kept element.\<close>

definition saturate :: "CompiledPolicy \<Rightarrow> PassState \<Rightarrow> jsstring \<Rightarrow> PassState" where
  "saturate P st tag =
     (if \<not> isStructural tag \<and> \<not> countsSaturated st \<and> usedTotalTags st \<ge> totalAllowedTags P
      then st\<lparr>countsSaturated := True\<rparr> else st)"

fun weight :: "node \<Rightarrow> nat" where
  "weight (Element name attrs kids) = Suc (sum_list (map weight kids))"
| "weight n = 1"

text \<open>
  The loop over the snapshot of the elements in document order, on a list of sibling
  nodes.  Removing an element detaches its descendants, which the loop then skips;
  unwrapping puts the children in the place of the element, where the loop reaches them
  next; text and comments are not in the snapshot.  A kept style element has its text
  content replaced or is removed, so its former children are skipped as well.

  The content of a template element is not in the snapshot (line 127).  When the element
  is unwrapped, \<open>unwrapElement\<close> moves the nodes of the content in front of it, one
  \<open>firstChild\<close> after the other (lines 275-277); the loop, which runs over the snapshot,
  visits none of them.  When the element is kept, its content stays as it is.
\<close>

function sanitizeElements ::
  "env \<Rightarrow> CompiledPolicy \<Rightarrow> PassState \<Rightarrow> node list \<Rightarrow> error + (node list \<times> PassState)"
where
  "sanitizeElements E P st [] = Inr ([], st)"
| "sanitizeElements E P st (Text t # rest) =
     (case sanitizeElements E P st rest of
        Inl e \<Rightarrow> Inl e
      | Inr (rest', st') \<Rightarrow> Inr (Text t # rest', st'))"
| "sanitizeElements E P st (Comment t # rest) =
     (case sanitizeElements E P st rest of
        Inl e \<Rightarrow> Inl e
      | Inr (rest', st') \<Rightarrow> Inr (Comment t # rest', st'))"
| "sanitizeElements E P st (Element name attrs kids # rest) =
     (let tag = toLowerCase E name in
      case enforceTag P st tag of
        Remove \<Rightarrow> sanitizeElements E P st rest
      | Unwrap \<Rightarrow> sanitizeElements E P st (kids @ rest)
      | Keep st1 \<Rightarrow>
          (case filterAttributes E attrs tag (attrAllowlist P) (styleAllowlist P)
                  (policyAllowCommon P) (policyAllowJS P) of
             Inl e \<Rightarrow> Inl e
           | Inr attrs' \<Rightarrow>
               (let st2 = saturate P st1 tag in
                if tag = js ''style'' then
                  (case filterStyleElement E kids (styleAllowlist P) of
                     None \<Rightarrow> sanitizeElements E P st2 rest
                   | Some filtered \<Rightarrow>
                       (case sanitizeElements E P st2 rest of
                          Inl e \<Rightarrow> Inl e
                        | Inr (rest', st') \<Rightarrow>
                            Inr (Element name attrs' [Text filtered] # rest', st')))
                else
                  (case sanitizeElements E P st2 kids of
                     Inl e \<Rightarrow> Inl e
                   | Inr (kids', st3) \<Rightarrow>
                       (case sanitizeElements E P st3 rest of
                          Inl e \<Rightarrow> Inl e
                        | Inr (rest', st') \<Rightarrow>
                            Inr (Element name attrs' kids' # rest', st'))))))"
| "sanitizeElements E P st (Template attrs content # rest) =
     (let tag = toLowerCase E (js ''TEMPLATE'') in
      case enforceTag P st tag of
        Remove \<Rightarrow> sanitizeElements E P st rest
      | Unwrap \<Rightarrow>
          (case sanitizeElements E P st rest of
             Inl e \<Rightarrow> Inl e
           | Inr (rest', st') \<Rightarrow> Inr (content @ rest', st'))
      | Keep st1 \<Rightarrow>
          (case filterAttributes E attrs tag (attrAllowlist P) (styleAllowlist P)
                  (policyAllowCommon P) (policyAllowJS P) of
             Inl e \<Rightarrow> Inl e
           | Inr attrs' \<Rightarrow>
               (case sanitizeElements E P (saturate P st1 tag) rest of
                  Inl e \<Rightarrow> Inl e
                | Inr (rest', st') \<Rightarrow> Inr (Template attrs' content # rest', st'))))"
  by pat_completeness auto
termination
  by (relation "measure (\<lambda>(E, P, st, ns). sum_list (map weight ns))") auto

fun isElement :: "node \<Rightarrow> bool" where
  "isElement (Element name attrs kids) = True"
| "isElement (Template attrs content) = True"
| "isElement n = False"

definition initialState :: "CompiledPolicy \<Rightarrow> PassState" where
  "initialState P =
     \<lparr>usedTagCounts = Map.empty, usedTotalTags = 0, countsSaturated = (totalAllowedTags P = 0)\<rparr>"

text \<open>
  The document after the loop, as a list of the nodes in the place of the root:
  \<open>doc.documentElement\<close> is the first element there, and reading \<open>outerHTML\<close> of
  \<open>null\<close> raises a TypeError.
\<close>

definition sanitizeDocument :: "env \<Rightarrow> CompiledPolicy \<Rightarrow> node \<Rightarrow> error + node" where
  "sanitizeDocument E P root =
     (case sanitizeElements E P (initialState P) [root] of
        Inl e \<Rightarrow> Inl e
      | Inr (nodes, st) \<Rightarrow>
          (case find isElement nodes of
             None \<Rightarrow> Inl TypeError
           | Some documentElement \<Rightarrow> Inr documentElement))"

definition sanitizeOnceWithPolicy :: "env \<Rightarrow> jsstring \<Rightarrow> CompiledPolicy \<Rightarrow> error + jsstring" where
  "sanitizeOnceWithPolicy E html P =
     (case sanitizeDocument E P (parseFromString E html) of
        Inl e \<Rightarrow> Inl e
      | Inr documentElement \<Rightarrow> Inr (applyDomPurify E (outerHTML E documentElement) P))"

section \<open>The convergence driver\<close>

function sanitizeLoop ::
  "env \<Rightarrow> CompiledPolicy \<Rightarrow> int \<Rightarrow> int \<Rightarrow> jsstring \<Rightarrow> error + jsstring"
where
  "sanitizeLoop E P maxP pass current =
     (if pass < maxP then
        (case sanitizeOnceWithPolicy E current P of
           Inl e \<Rightarrow> Inl e
         | Inr next \<Rightarrow>
             if next = current then Inr next
             else sanitizeLoop E P maxP (pass + 1) next)
      else Inr current)"
  by pat_completeness auto
termination
  by (relation "measure (\<lambda>(E, P, maxP, pass, current). nat (maxP - pass))") auto

declare sanitizeLoop.simps [simp del]

definition maxPassesOf :: "CompiledPolicy \<Rightarrow> int" where
  "maxPassesOf P = (case maxPasses (config P) of None \<Rightarrow> 10 | Some n \<Rightarrow> n)"

definition sanitizeWithPolicy :: "env \<Rightarrow> jsstring \<Rightarrow> CompiledPolicy \<Rightarrow> error + jsstring" where
  "sanitizeWithPolicy E html P =
     sanitizeLoop E P (maxPassesOf P) 0 html"

definition sanitize :: "env \<Rightarrow> jsstring \<Rightarrow> jsstring list \<Rightarrow> SanitizerConfig \<Rightarrow> error + jsstring" where
  "sanitize E html rules cfg = sanitizeWithPolicy E html (compileRules E rules cfg)"

text \<open>
  The same loop, returning the texts the filtering pass was applied to, in order: one
  entry for each pass that ran.
\<close>

function passInputs :: "env \<Rightarrow> CompiledPolicy \<Rightarrow> int \<Rightarrow> int \<Rightarrow> jsstring \<Rightarrow> jsstring list" where
  "passInputs E P maxP pass current =
     (if pass < maxP then
        current #
          (case sanitizeOnceWithPolicy E current P of
             Inl e \<Rightarrow> []
           | Inr next \<Rightarrow>
               if next = current then []
               else passInputs E P maxP (pass + 1) next)
      else [])"
  by pat_completeness auto
termination
  by (relation "measure (\<lambda>(E, P, maxP, pass, current). nat (maxP - pass))") auto

declare passInputs.simps [simp del]

text \<open>The text that the last pass ran on, when a pass ran.\<close>

definition lastPassInput :: "env \<Rightarrow> CompiledPolicy \<Rightarrow> jsstring \<Rightarrow> jsstring" where
  "lastPassInput E P html = last (passInputs E P (maxPassesOf P) 0 html)"

section \<open>The URL danger check as the specification words it\<close>












section \<open>The filtering pass without the saturation shortcut\<close>

text \<open>
  The same loop body with the saturation branch taken out: a non-structural element is
  always judged by its own counter.  The flag is still kept up to date, and never read.
\<close>

definition enforceTagCounting :: "CompiledPolicy \<Rightarrow> PassState \<Rightarrow> jsstring \<Rightarrow> verdict" where
  "enforceTagCounting P st tag =
     (if \<not> policyAllowJS P \<and> tag = js ''script'' then Remove
      else if tag = js ''style'' \<and> \<not> allowStyleTag P then Remove
      else if \<not> isStructural tag then
        (if allowedCount P tag = 0 then Unwrap
         else if usedCount st tag \<ge> allowedCount P tag then Remove
         else Keep (st\<lparr>usedTagCounts := (usedTagCounts st)(tag \<mapsto> usedCount st tag + 1),
                       usedTotalTags := usedTotalTags st + 1\<rparr>))
      else Keep st)"

function sanitizeElementsCounting ::
  "env \<Rightarrow> CompiledPolicy \<Rightarrow> PassState \<Rightarrow> node list \<Rightarrow> error + (node list \<times> PassState)"
where
  "sanitizeElementsCounting E P st [] = Inr ([], st)"
| "sanitizeElementsCounting E P st (Text t # rest) =
     (case sanitizeElementsCounting E P st rest of
        Inl e \<Rightarrow> Inl e
      | Inr (rest', st') \<Rightarrow> Inr (Text t # rest', st'))"
| "sanitizeElementsCounting E P st (Comment t # rest) =
     (case sanitizeElementsCounting E P st rest of
        Inl e \<Rightarrow> Inl e
      | Inr (rest', st') \<Rightarrow> Inr (Comment t # rest', st'))"
| "sanitizeElementsCounting E P st (Element name attrs kids # rest) =
     (let tag = toLowerCase E name in
      case enforceTagCounting P st tag of
        Remove \<Rightarrow> sanitizeElementsCounting E P st rest
      | Unwrap \<Rightarrow> sanitizeElementsCounting E P st (kids @ rest)
      | Keep st1 \<Rightarrow>
          (case filterAttributes E attrs tag (attrAllowlist P) (styleAllowlist P)
                  (policyAllowCommon P) (policyAllowJS P) of
             Inl e \<Rightarrow> Inl e
           | Inr attrs' \<Rightarrow>
               (let st2 = saturate P st1 tag in
                if tag = js ''style'' then
                  (case filterStyleElement E kids (styleAllowlist P) of
                     None \<Rightarrow> sanitizeElementsCounting E P st2 rest
                   | Some filtered \<Rightarrow>
                       (case sanitizeElementsCounting E P st2 rest of
                          Inl e \<Rightarrow> Inl e
                        | Inr (rest', st') \<Rightarrow>
                            Inr (Element name attrs' [Text filtered] # rest', st')))
                else
                  (case sanitizeElementsCounting E P st2 kids of
                     Inl e \<Rightarrow> Inl e
                   | Inr (kids', st3) \<Rightarrow>
                       (case sanitizeElementsCounting E P st3 rest of
                          Inl e \<Rightarrow> Inl e
                        | Inr (rest', st') \<Rightarrow>
                            Inr (Element name attrs' kids' # rest', st'))))))"
| "sanitizeElementsCounting E P st (Template attrs content # rest) =
     (let tag = toLowerCase E (js ''TEMPLATE'') in
      case enforceTagCounting P st tag of
        Remove \<Rightarrow> sanitizeElementsCounting E P st rest
      | Unwrap \<Rightarrow>
          (case sanitizeElementsCounting E P st rest of
             Inl e \<Rightarrow> Inl e
           | Inr (rest', st') \<Rightarrow> Inr (content @ rest', st'))
      | Keep st1 \<Rightarrow>
          (case filterAttributes E attrs tag (attrAllowlist P) (styleAllowlist P)
                  (policyAllowCommon P) (policyAllowJS P) of
             Inl e \<Rightarrow> Inl e
           | Inr attrs' \<Rightarrow>
               (case sanitizeElementsCounting E P (saturate P st1 tag) rest of
                  Inl e \<Rightarrow> Inl e
                | Inr (rest', st') \<Rightarrow> Inr (Template attrs' content # rest', st'))))"
  by pat_completeness auto
termination
  by (relation "measure (\<lambda>(E, P, st, ns). sum_list (map weight ns))") auto

definition sanitizeDocumentCounting :: "env \<Rightarrow> CompiledPolicy \<Rightarrow> node \<Rightarrow> error + node" where
  "sanitizeDocumentCounting E P root =
     (case sanitizeElementsCounting E P (initialState P) [root] of
        Inl e \<Rightarrow> Inl e
      | Inr (nodes, st) \<Rightarrow>
          (case find isElement nodes of
             None \<Rightarrow> Inl TypeError
           | Some documentElement \<Rightarrow> Inr documentElement))"

text \<open>
  The invariant of a policy's \<open>tagCounts\<close>: a \<open>Map\<close> has each key once, and a budget is
  not negative.
\<close>

definition validCounts :: "CompiledPolicy \<Rightarrow> bool" where
  "validCounts P \<longleftrightarrow>
     distinct (map fst (tagCounts P)) \<and> (\<forall>(tag, count) \<in> set (tagCounts P). 0 \<le> count)"

text \<open>
  What holds of the counters throughout a pass: no counter is above its budget, the
  kept total is the sum of the counters, and the flag is only set when the kept total
  has reached the sum of the budgets.
\<close>

definition countersOk :: "CompiledPolicy \<Rightarrow> PassState \<Rightarrow> bool" where
  "countersOk P st \<longleftrightarrow>
     (\<forall>(tag, count) \<in> set (tagCounts P). \<not> isStructural tag \<longrightarrow> usedCount st tag \<le> count)
     \<and> totalAllowedTags P - usedTotalTags st =
         sum_list (map (\<lambda>(tag, count). count - usedCount st tag)
                    (filter (\<lambda>(tag, count). \<not> isStructural tag) (tagCounts P)))
     \<and> (countsSaturated st \<longrightarrow> usedTotalTags st \<ge> totalAllowedTags P)"

section \<open>Reading a document and a rule list\<close>

text \<open>
  The number of elements of a tag (lower-cased, as the loop compares it) in a tree, as
  \<open>querySelectorAll\<close> counts them: a template element counts, its content does not.
\<close>

fun countTag :: "env \<Rightarrow> jsstring \<Rightarrow> node list \<Rightarrow> nat" where
  "countTag E tag [] = 0"
| "countTag E tag (Text t # ns) = countTag E tag ns"
| "countTag E tag (Comment t # ns) = countTag E tag ns"
| "countTag E tag (Element name attrs kids # ns) =
     (if toLowerCase E name = tag then 1 else 0) + countTag E tag kids + countTag E tag ns"
| "countTag E tag (Template attrs content # ns) =
     (if toLowerCase E (js ''TEMPLATE'') = tag then 1 else 0) + countTag E tag ns"

text \<open>The budget of a tag as the rules give it: the number of one-segment rules that name it.\<close>

definition ruleBudget :: "env \<Rightarrow> jsstring list \<Rightarrow> jsstring \<Rightarrow> nat" where
  "ruleBudget E rules tag =
     length (filter (\<lambda>rule. let parts = map trim (split 124 rule)
                             in length parts = 1 \<and> toLowerCase E (parts ! 0) = tag) rules)"

text \<open>The tags of the structural elements among sibling nodes, in order.\<close>

fun structuralNames :: "env \<Rightarrow> node list \<Rightarrow> jsstring list" where
  "structuralNames E [] = []"
| "structuralNames E (Element name attrs kids # ns) =
     (if isStructural (toLowerCase E name) then toLowerCase E name # structuralNames E ns
      else structuralNames E ns)"
| "structuralNames E (n # ns) = structuralNames E ns"

text \<open>The trees that hold no template element, at any depth.\<close>

fun templateFree :: "node list \<Rightarrow> bool" where
  "templateFree [] \<longleftrightarrow> True"
| "templateFree (Element name attrs kids # ns) \<longleftrightarrow> templateFree kids \<and> templateFree ns"
| "templateFree (Template attrs content # ns) \<longleftrightarrow> False"
| "templateFree (Text t # ns) \<longleftrightarrow> templateFree ns"
| "templateFree (Comment t # ns) \<longleftrightarrow> templateFree ns"

text \<open>
  The elements of a tree, each with its tag name and its attributes, as
  \<open>querySelectorAll("*")\<close> lists them.
\<close>

fun elementsOf :: "node list \<Rightarrow> (jsstring \<times> (jsstring \<times> jsstring) list) list" where
  "elementsOf [] = []"
| "elementsOf (Element name attrs kids # ns) = (name, attrs) # elementsOf kids @ elementsOf ns"
| "elementsOf (Template attrs content # ns) = (js ''TEMPLATE'', attrs) # elementsOf ns"
| "elementsOf (n # ns) = elementsOf ns"

text \<open>
  The allowed attribute names of a tag in the words of the specification: the names the
  rules declare for the tag, and with \<open>allowCommonAttributes\<close> also \<open>class\<close>, \<open>id\<close>
  and the defaults of the tag in the fixed table.
\<close>

definition allowedAttrSet :: "CompiledPolicy \<Rightarrow> jsstring \<Rightarrow> jsstring set" where
  "allowedAttrSet P tag =
     allowedIn (attrAllowlist P) tag
       \<union> (if policyAllowCommon P
          then set COMMON_GLOBAL_ATTRS \<union> allowedIn COMMON_ATTRS tag else {})"

section \<open>Reading the attributes of a document\<close>




section \<open>Reading a CSS value\<close>

text \<open>The names of the functions in a parsed value, at any depth.\<close>

fun functionNames :: "valueNode list \<Rightarrow> jsstring list" where
  "functionNames [] = []"
| "functionNames (VFunction name args # ns) = name # functionNames args @ functionNames ns"
| "functionNames (VOther ty v # ns) = functionNames ns"

text \<open>\<open>s.includes(sub)\<close>: the text \<open>sub\<close> occurs in \<open>s\<close>.\<close>

fun includesText :: "jsstring \<Rightarrow> jsstring \<Rightarrow> bool" where
  "includesText [] sub \<longleftrightarrow> sub = []"
| "includesText (c # cs) sub \<longleftrightarrow> startsWith (c # cs) sub \<or> includesText cs sub"

section \<open>A concrete environment for examples\<close>

text \<open>
  A small environment on which the definitions can be evaluated.  Its serialiser writes
  start tag, children and end tag, and the content of a template element between its
  tags.  Its parsers know the texts of a few scenarios:
  \<^item> a \<open>div\<close> that holds a template element with two \<open>p\<close> in its content, and the
    two documents that the passes make of it;
  \<^item> a \<open>div\<close> that holds a template element whose content is an \<open>a\<close> with an
    \<open>onclick\<close>, a \<open>title\<close> and a \<open>rel\<close> attribute, and the two documents that
    the passes make of it;
  \<^item> a style sheet that is one declaration outside any rule, \<open>background:url(x)\<close>; a
    rule whose value is a quoted string; a rule with two declarations;
  \<^item> the value \<open>url(x)\<close> is a function named \<open>url\<close>, any other value is a word.
  Any other text is parsed as the text of the body and is no style sheet.  The external
  sanitizer returns the text it is given.  Letters outside ASCII lower-case to
  themselves.
\<close>

definition asciiLower :: "jsstring \<Rightarrow> jsstring" where
  "asciiLower s = map (\<lambda>c. if 65 \<le> c \<and> c \<le> 90 then c + 32 else c) s"

fun serialize :: "node \<Rightarrow> jsstring" where
  "serialize (Element name attrs kids) =
     js ''<'' @ asciiLower name
       @ concat (map (\<lambda>(n, v). js '' '' @ n @ js ''='' @ [34] @ v @ [34]) attrs)
       @ js ''>'' @ concat (map serialize kids) @ js ''</'' @ asciiLower name @ js ''>''"
| "serialize (Template attrs content) =
     js ''<template''
       @ concat (map (\<lambda>(n, v). js '' '' @ n @ js ''='' @ [34] @ v @ [34]) attrs)
       @ js ''>'' @ concat (map serialize content) @ js ''</template>''"
| "serialize (Text t) = t"
| "serialize (Comment t) = js ''<!--'' @ t @ js ''-->''"

definition document :: "node list \<Rightarrow> node" where
  "document body =
     Element (js ''HTML'') [] [Element (js ''HEAD'') [] [], Element (js ''BODY'') [] body]"

definition paragraphs :: "node list" where
  "paragraphs =
     [Element (js ''P'') [] [Text (js ''a'')], Element (js ''P'') [] [Text (js ''b'')]]"

definition templateInput :: jsstring where
  "templateInput = js ''<div><template><p>a</p><p>b</p></template></div>''"

definition templateTree :: node where
  "templateTree = document [Element (js ''DIV'') [] [Template [] paragraphs]]"

definition bothTree :: node where
  "bothTree = document [Element (js ''DIV'') [] paragraphs]"

definition bothOutput :: jsstring where
  "bothOutput = js ''<html><head></head><body><div><p>a</p><p>b</p></div></body></html>''"

definition oneTree :: node where
  "oneTree = document [Element (js ''DIV'') [] [Element (js ''P'') [] [Text (js ''a'')]]]"

definition oneOutput :: jsstring where
  "oneOutput = js ''<html><head></head><body><div><p>a</p></div></body></html>''"

definition anchor :: node where
  "anchor =
     Element (js ''A'')
       [(js ''onclick'', js ''x''), (js ''title'', js ''t''), (js ''rel'', js ''r'')]
       [Text (js ''y'')]"

definition handlerInput :: jsstring where
  "handlerInput =
     js ''<div><template><a onclick='' @ [34] @ js ''x'' @ [34] @ js '' title='' @ [34]
       @ js ''t'' @ [34] @ js '' rel='' @ [34] @ js ''r'' @ [34]
       @ js ''>y</a></template></div>''"

definition handlerTree :: node where
  "handlerTree = document [Element (js ''DIV'') [] [Template [] [anchor]]]"

definition handlerDoc :: node where
  "handlerDoc = document [Element (js ''DIV'') [] [anchor]]"

definition handlerOutput :: jsstring where
  "handlerOutput =
     js ''<html><head></head><body><div><a onclick='' @ [34] @ js ''x'' @ [34] @ js '' title=''
       @ [34] @ js ''t'' @ [34] @ js '' rel='' @ [34] @ js ''r'' @ [34]
       @ js ''>y</a></div></body></html>''"

definition cleanTree :: node where
  "cleanTree =
     document [Element (js ''DIV'') []
                [Element (js ''A'') [(js ''rel'', js ''r'')] [Text (js ''y'')]]]"

definition cleanOutput :: jsstring where
  "cleanOutput =
     js ''<html><head></head><body><div><a rel='' @ [34] @ js ''r'' @ [34]
       @ js ''>y</a></div></body></html>''"

fun serializeCss :: "cssNode \<Rightarrow> jsstring" where
  "serializeCss (Decl prop v raws) = prop @ js '':'' @ v"
| "serializeCss (Rule sel kids) =
     sel @ js ''{'' @ joinWith (js '';'') (map serializeCss kids) @ js ''}''"
| "serializeCss (AtRule name params kids) =
     js ''@'' @ name @ js '' '' @ params @ js ''{''
       @ joinWith (js '';'') (map serializeCss kids) @ js ''}''"
| "serializeCss (CssComment t) = js ''/*'' @ t @ js ''*/''"

definition quotedUrl :: jsstring where
  "quotedUrl = [34] @ js ''url(x)'' @ [34]"

definition quotedSheet :: jsstring where
  "quotedSheet = js ''p{content:'' @ quotedUrl @ js ''}''"

definition scenarioEnv :: env where
  "scenarioEnv =
     \<lparr>unicodeLower = (\<lambda>pre c post. [c]),
      parseFromString = (\<lambda>html.
         if html = templateInput then templateTree
         else if html = bothOutput then bothTree
         else if html = oneOutput then oneTree
         else if html = handlerInput then handlerTree
         else if html = handlerOutput then handlerDoc
         else if html = cleanOutput then cleanTree
         else document [Text html]),
      outerHTML = serialize,
      purify = (\<lambda>html tags attrs. html),
      postcssParse = (\<lambda>css.
         if css = js ''background:url(x)''
           then Some ([], [Decl (js ''background'') (js ''url(x)'') []])
         else if css = quotedSheet
           then Some ([], [Rule (js ''p'') [Decl (js ''content'') quotedUrl []]])
         else if css = js ''a{color:red;top:0}''
           then Some ([], [Rule (js ''a'')
                  [Decl (js ''color'') (js ''red'') [], Decl (js ''top'') (js ''0'') []]])
         else None),
      postcssToString = (\<lambda>(raws, nodes). joinWith (js '';'') (map serializeCss nodes)),
      ruleSelectors = split 44,
      valueParser = (\<lambda>v.
         if v = js ''url(x)'' then [VFunction (js ''url'') [VOther (js ''word'') (js ''x'')]]
         else [VOther (js ''word'') v])\<rparr>"

definition passesConfig :: "int \<Rightarrow> SanitizerConfig" where
  "passesConfig n = \<lparr>allowCommonAttributes = None, allowJavaScript = None, maxPasses = Some n\<rparr>"

definition handlerRules :: "jsstring list" where
  "handlerRules = [js ''div'', js ''a'', js ''a|onclick'', js ''a|rel'', js ''p|title'']"

definition handlerPolicy :: "int \<Rightarrow> CompiledPolicy" where
  "handlerPolicy n =
     \<lparr>tagCounts = [(js ''div'', 1), (js ''a'', 1)],
      attrAllowlist = [(js ''a'', [js ''onclick'', js ''rel'']), (js ''p'', [js ''title''])],
      styleAllowlist = [], config = passesConfig n\<rparr>"

definition styleTree :: node where
  "styleTree =
     Element (js ''HTML'') []
       [Element (js ''HEAD'') [] [Element (js ''STYLE'') [] [Text (js ''background:url(x)'')]],
        Element (js ''BODY'') [] []]"

definition stylePolicy :: CompiledPolicy where
  "stylePolicy =
     \<lparr>tagCounts = [(js ''style'', 1)], attrAllowlist = [],
      styleAllowlist = [(js ''p'', [js ''color''])],
      config = \<lparr>allowCommonAttributes = None, allowJavaScript = None, maxPasses = None\<rparr>\<rparr>"

definition paragraphRules :: "jsstring list" where
  "paragraphRules = [js ''div'', js ''p'']"

definition paragraphPolicy :: "int \<Rightarrow> CompiledPolicy" where
  "paragraphPolicy n =
     \<lparr>tagCounts = [(js ''div'', 1), (js ''p'', 1)], attrAllowlist = [], styleAllowlist = [],
      config = passesConfig n\<rparr>"

section \<open>The convergence driver: properties\<close>

lemma passInputs_stop: "\<not> pass < maxP \<Longrightarrow> passInputs E P maxP pass cur = []"
  by (subst passInputs.simps) simp

lemma passInputs_error:
  "pass < maxP \<Longrightarrow> sanitizeOnceWithPolicy E cur P = Inl e \<Longrightarrow>
   passInputs E P maxP pass cur = [cur]"
  by (subst passInputs.simps) simp

lemma passInputs_stable:
  "pass < maxP \<Longrightarrow> sanitizeOnceWithPolicy E cur P = Inr cur \<Longrightarrow>
   passInputs E P maxP pass cur = [cur]"
  by (subst passInputs.simps) simp

lemma passInputs_step:
  "pass < maxP \<Longrightarrow> sanitizeOnceWithPolicy E cur P = Inr nxt \<Longrightarrow> nxt \<noteq> cur \<Longrightarrow>
   passInputs E P maxP pass cur = cur # passInputs E P maxP (pass + 1) nxt"
  by (subst passInputs.simps) simp

lemma sanitizeLoop_stop: "\<not> pass < maxP \<Longrightarrow> sanitizeLoop E P maxP pass cur = Inr cur"
  by (subst sanitizeLoop.simps) simp

lemma sanitizeLoop_error:
  "pass < maxP \<Longrightarrow> sanitizeOnceWithPolicy E cur P = Inl e \<Longrightarrow>
   sanitizeLoop E P maxP pass cur = Inl e"
  by (subst sanitizeLoop.simps) simp

lemma sanitizeLoop_stable:
  "pass < maxP \<Longrightarrow> sanitizeOnceWithPolicy E cur P = Inr cur \<Longrightarrow>
   sanitizeLoop E P maxP pass cur = Inr cur"
  by (subst sanitizeLoop.simps) simp

lemma sanitizeLoop_step:
  "pass < maxP \<Longrightarrow> sanitizeOnceWithPolicy E cur P = Inr nxt \<Longrightarrow> nxt \<noteq> cur \<Longrightarrow>
   sanitizeLoop E P maxP pass cur = sanitizeLoop E P maxP (pass + 1) nxt"
  by (subst sanitizeLoop.simps) simp

text \<open>The four ways one round of the loop can go, for the loop and for its list of inputs.\<close>

lemma passInputs_cases:
  obtains (stop) "\<not> pass < maxP" "passInputs E P maxP pass cur = []"
        "sanitizeLoop E P maxP pass cur = Inr cur"
  | (error) e where "pass < maxP" "sanitizeOnceWithPolicy E cur P = Inl e"
        "passInputs E P maxP pass cur = [cur]" "sanitizeLoop E P maxP pass cur = Inl e"
  | (stable) "pass < maxP" "sanitizeOnceWithPolicy E cur P = Inr cur"
        "passInputs E P maxP pass cur = [cur]" "sanitizeLoop E P maxP pass cur = Inr cur"
  | (step) nxt where "pass < maxP" "sanitizeOnceWithPolicy E cur P = Inr nxt" "nxt \<noteq> cur"
        "passInputs E P maxP pass cur = cur # passInputs E P maxP (pass + 1) nxt"
        "sanitizeLoop E P maxP pass cur = sanitizeLoop E P maxP (pass + 1) nxt"
proof (cases "pass < maxP")
  case False
  then show ?thesis using stop passInputs_stop sanitizeLoop_stop by blast
next
  case True
  show ?thesis
  proof (cases "sanitizeOnceWithPolicy E cur P")
    case (Inl e)
    then show ?thesis using True error passInputs_error sanitizeLoop_error by blast
  next
    case (Inr nxt)
    show ?thesis
    proof (cases "nxt = cur")
      case True
      then show ?thesis
        using \<open>pass < maxP\<close> Inr stable passInputs_stable sanitizeLoop_stable by blast
    next
      case False
      then show ?thesis
        using \<open>pass < maxP\<close> Inr step passInputs_step sanitizeLoop_step by blast
    qed
  qed
qed


lemma passInputs_empty: "passInputs E P maxP pass cur = [] \<longleftrightarrow> \<not> pass < maxP"
  by (subst passInputs.simps) simp



lemma sanitizeLoop_last:
  "sanitizeLoop E P maxP pass cur =
     (if passInputs E P maxP pass cur = [] then Inr cur
      else sanitizeOnceWithPolicy E (last (passInputs E P maxP pass cur)) P)"
proof (induction E P maxP pass cur rule: passInputs.induct)
  case (1 E P maxP pass current)
  show ?case
  proof (cases rule: passInputs_cases[of pass maxP E P current])
    case (step nxt)
    show ?thesis
    proof (cases "pass + 1 < maxP")
      case True
      then have "passInputs E P maxP (pass + 1) nxt \<noteq> []" by (simp add: passInputs_empty)
      with "1.IH"[OF step(1,2,3)] step show ?thesis by simp
    next
      case False
      then show ?thesis using step by (simp add: passInputs_stop sanitizeLoop_stop)
    qed
  qed simp_all
qed

lemma passInputs_early:
  "passInputs E P maxP pass cur \<noteq> [] \<Longrightarrow>
   int (length (passInputs E P maxP pass cur)) < maxP - pass \<Longrightarrow>
   sanitizeOnceWithPolicy E (last (passInputs E P maxP pass cur)) P
      = Inr (last (passInputs E P maxP pass cur))
   \<or> (\<exists>e. sanitizeOnceWithPolicy E (last (passInputs E P maxP pass cur)) P = Inl e)"
proof (induction E P maxP pass cur rule: passInputs.induct)
  case (1 E P maxP pass current)
  show ?case
  proof (cases rule: passInputs_cases[of pass maxP E P current])
    case (step nxt)
    show ?thesis
    proof (cases "pass + 1 < maxP")
      case True
      then have ne: "passInputs E P maxP (pass + 1) nxt \<noteq> []" by (simp add: passInputs_empty)
      from "1.prems"(2) step(4)
      have "int (length (passInputs E P maxP (pass + 1) nxt)) < maxP - (pass + 1)" by simp
      from "1.IH"[OF step(1,2,3) ne this] ne step(4) show ?thesis by simp
    next
      case False
      with "1.prems"(2) step show ?thesis by (simp add: passInputs_stop)
    qed
  qed (use "1.prems" in simp_all)
qed

section \<open>The scenario, evaluated\<close>

lemmas scenario_defs = js_def trim_def isWhiteSpace_def toLowerCase_def scenarioEnv_def Let_def
  templateInput_def templateTree_def paragraphs_def document_def enforceTag_def
  policyAllowJS_def policyAllowCommon_def allowStyleTag_def allowedCount_def isStructural_def
  STRUCTURAL_TAGS_def usedCount_def saturate_def totalAllowedTags_def initialState_def
  filterAttributes_def allowedAttrsFor_def setAdd_def sanitizeDocument_def
  sanitizeOnceWithPolicy_def applyDomPurify_def asciiLower_def bothOutput_def bothTree_def
  oneOutput_def oneTree_def handlerInput_def handlerTree_def handlerDoc_def handlerOutput_def
  anchor_def paragraphPolicy_def handlerPolicy_def passesConfig_def

lemma compile_paragraphs:
  "compileRules E paragraphRules (passesConfig n) = paragraphPolicy n"
  by (simp add: compileRules_def compileRule_def paragraphRules_def paragraphPolicy_def
        js_def trim_def isWhiteSpace_def toLowerCase_def Let_def)

lemma compile_handler:
  "compileRules E handlerRules (passesConfig n) = handlerPolicy n"
  by (simp add: compileRules_def compileRule_def handlerRules_def handlerPolicy_def
        passesConfig_def js_def trim_def isWhiteSpace_def toLowerCase_def Let_def addToSet_def
        mapHas_def setAdd_def)

text \<open>
  The passes of the scenarios on the trees, in every environment.  The template element
  is unwrapped and the nodes of its content come out as they went in: two \<open>p\<close> under
  a budget of one, and an \<open>a\<close> with all its attributes.
\<close>

lemma document_template: "sanitizeDocument E (paragraphPolicy n) templateTree = Inr bothTree"
  by (simp add: scenario_defs
        cong: sum.case_cong_weak option.case_cong_weak verdict.case_cong_weak)

lemma document_both: "sanitizeDocument E (paragraphPolicy n) bothTree = Inr oneTree"
  by (simp add: scenario_defs
        cong: sum.case_cong_weak option.case_cong_weak verdict.case_cong_weak)

lemma document_one: "sanitizeDocument E (paragraphPolicy n) oneTree = Inr oneTree"
  by (simp add: scenario_defs
        cong: sum.case_cong_weak option.case_cong_weak verdict.case_cong_weak)

lemma document_handler: "sanitizeDocument E (handlerPolicy n) handlerTree = Inr handlerDoc"
  by (simp add: scenario_defs
        cong: sum.case_cong_weak option.case_cong_weak verdict.case_cong_weak)

lemma once_parsed:
  "parseFromString E html = root \<Longrightarrow> sanitizeDocument E P root = Inr doc \<Longrightarrow>
   sanitizeOnceWithPolicy E html P = Inr (applyDomPurify E (outerHTML E doc) P)"
  by (simp add: sanitizeOnceWithPolicy_def)

lemma sanitizeLoop_one_pass:
  "sanitizeOnceWithPolicy E html P = Inr out \<Longrightarrow> sanitizeLoop E P 1 0 html = Inr out"
  by (cases "out = html") (simp_all add: sanitizeLoop_stable sanitizeLoop_step sanitizeLoop_stop)

lemma scenario_parsed:
  "parseFromString scenarioEnv templateInput = templateTree"
  "parseFromString scenarioEnv bothOutput = bothTree"
  "parseFromString scenarioEnv oneOutput = oneTree"
  "parseFromString scenarioEnv handlerInput = handlerTree"
  "parseFromString scenarioEnv handlerOutput = handlerDoc"
  by (simp_all add: scenarioEnv_def templateInput_def bothOutput_def oneOutput_def
        handlerInput_def handlerOutput_def js_def)

lemma scenario_written:
  "applyDomPurify scenarioEnv (outerHTML scenarioEnv bothTree) P = bothOutput"
  "applyDomPurify scenarioEnv (outerHTML scenarioEnv oneTree) P = oneOutput"
  "applyDomPurify scenarioEnv (outerHTML scenarioEnv handlerDoc) P = handlerOutput"
  by (simp_all add: applyDomPurify_def scenarioEnv_def bothTree_def oneTree_def handlerDoc_def
        paragraphs_def anchor_def document_def bothOutput_def oneOutput_def handlerOutput_def
        asciiLower_def js_def Let_def)

lemma once_template:
  "sanitizeOnceWithPolicy scenarioEnv templateInput (paragraphPolicy n) = Inr bothOutput"
  using once_parsed[OF scenario_parsed(1) document_template] by (simp add: scenario_written)

lemma once_both:
  "sanitizeOnceWithPolicy scenarioEnv bothOutput (paragraphPolicy n) = Inr oneOutput"
  using once_parsed[OF scenario_parsed(2) document_both] by (simp add: scenario_written)

lemma once_one:
  "sanitizeOnceWithPolicy scenarioEnv oneOutput (paragraphPolicy n) = Inr oneOutput"
  using once_parsed[OF scenario_parsed(3) document_one] by (simp add: scenario_written)


lemma scenario_distinct:
  "bothOutput \<noteq> templateInput" "oneOutput \<noteq> bothOutput" "oneOutput \<noteq> templateInput"
  by (simp_all add: bothOutput_def templateInput_def oneOutput_def js_def)

lemma maxPasses_paragraphPolicy: "maxPassesOf (paragraphPolicy n) = n"
  by (simp add: maxPassesOf_def paragraphPolicy_def passesConfig_def)

lemma maxPasses_handlerPolicy: "maxPassesOf (handlerPolicy n) = n"
  by (simp add: maxPassesOf_def handlerPolicy_def passesConfig_def)

lemma inputs_template_5:
  "passInputs scenarioEnv (paragraphPolicy 5) 5 0 templateInput
     = [templateInput, bothOutput, oneOutput]"
  by (simp add: passInputs_step[OF _ once_template scenario_distinct(1)]
       passInputs_step[OF _ once_both scenario_distinct(2)] passInputs_stable[OF _ once_one])






lemma last_template_5:
  "lastPassInput scenarioEnv (paragraphPolicy 5) templateInput = oneOutput"
  by (simp add: lastPassInput_def maxPasses_paragraphPolicy inputs_template_5)


section \<open>Claims about the convergence driver\<close>



lemma config_compileRule: "config (compileRule E p rule) = config p"
  by (simp add: compileRule_def Let_def)

lemma config_compileRules: "config (compileRules E rules cfg) = cfg"
  by (induction rules rule: rev_induct) (simp_all add: compileRules_def config_compileRule)

text \<open>
  Claim C8.  The one-shot form equals the two-phase form: \<open>sanitize\<close> of a text, a rule
  list and a config is \<open>sanitizeWithPolicy\<close> of the text and the policy that
  \<open>compileRules\<close> makes of the rule list and the config, and that policy carries the
  config it was compiled with.
\<close>

theorem sanitize_two_phase:
  "sanitize E html rules cfg = sanitizeWithPolicy E html (compileRules E rules cfg)
   \<and> config (compileRules E rules cfg) = cfg"
  by (simp add: sanitize_def config_compileRules)

text \<open>
  Claim C10.  For a policy whose \<open>maxPasses\<close> is zero or negative, \<open>sanitizeWithPolicy\<close>
  returns the text unchanged and no filtering pass runs: the list of pass inputs is
  empty.  This holds for every environment, whatever its parser and its external
  sanitizer do: the external sanitizer is only called at the end of a pass.
\<close>

theorem sanitizeWithPolicy_no_pass:
  "maxPassesOf P \<le> 0 \<Longrightarrow>
   sanitizeWithPolicy E html P = Inr html \<and> passInputs E P (maxPassesOf P) 0 html = []"
  by (simp add: sanitizeWithPolicy_def sanitizeLoop_stop passInputs_stop)

text \<open>Witness for claim C10: the scenario with no pass allowed.\<close>

theorem sanitizeWithPolicy_no_pass_witness:
  "maxPassesOf (paragraphPolicy 0) \<le> 0
   \<and> sanitizeWithPolicy scenarioEnv templateInput (paragraphPolicy 0) = Inr templateInput
   \<and> passInputs scenarioEnv (paragraphPolicy 0) (maxPassesOf (paragraphPolicy 0)) 0 templateInput = []"
proof -
  have h: "maxPassesOf (paragraphPolicy 0) \<le> 0" by (simp add: maxPasses_paragraphPolicy)
  from sanitizeWithPolicy_no_pass[OF h, of scenarioEnv templateInput] h show ?thesis by simp
qed

text \<open>
  Idempotence at a fixed point.  Sanitizing the result of \<open>sanitize\<close> again returns
  it unchanged whenever no pass runs (\<open>maxPasses\<close> is zero or negative), or the loop
  stopped before the ceiling (so that the last pass returned its input), or the result is
  a fixed point of the single filtering pass.
\<close>

lemma sanitize_again_at_fixed_point:
  assumes "sanitize E html rules cfg = Inr out"
    and "maxPassesOf (compileRules E rules cfg) \<le> 0
       \<or> int (length (passInputs E (compileRules E rules cfg)
                          (maxPassesOf (compileRules E rules cfg)) 0 html))
            < maxPassesOf (compileRules E rules cfg)
       \<or> sanitizeOnceWithPolicy E out (compileRules E rules cfg) = Inr out"
  shows "sanitize E out rules cfg = Inr out"
proof -
  let ?P = "compileRules E rules cfg"
  let ?n = "maxPassesOf ?P"
  let ?tr = "passInputs E ?P ?n 0 html"
  from assms(1) have res: "sanitizeLoop E ?P ?n 0 html = Inr out"
    by (simp add: sanitize_def sanitizeWithPolicy_def)
  show ?thesis
  proof (cases "?n \<le> 0")
    case True
    then show ?thesis by (simp add: sanitize_def sanitizeWithPolicy_def sanitizeLoop_stop)
  next
    case False
    then have pos: "0 < ?n" by simp
    have fixed: "sanitizeOnceWithPolicy E out ?P = Inr out"
    proof (cases "int (length ?tr) < ?n")
      case True
      from pos have ne: "?tr \<noteq> []" by (simp add: passInputs_empty)
      from res ne have last: "sanitizeOnceWithPolicy E (last ?tr) ?P = Inr out"
        by (simp add: sanitizeLoop_last)
      from passInputs_early[of E ?P ?n 0 html] ne True last
      have "Inr out = (Inr (last ?tr) :: error + jsstring)" by auto
      with last show ?thesis by simp
    next
      case False
      with assms(2) pos show ?thesis by simp
    qed
    with pos show ?thesis
      by (simp add: sanitize_def sanitizeWithPolicy_def sanitizeLoop_stable)
  qed
qed

text \<open>
  Claim C1 (sanitizing twice equals sanitizing once, for every text, rule list and
  config).  The code breaks it on a template element that the rules do not allow.  The
  pass unwraps the element: \<open>unwrapElement\<close> moves the nodes of its content in front of
  it, after the snapshot of the elements was taken, so the loop visits none of them and
  applies no budget to them.  With the rules \<open>div\<close> and \<open>p\<close> and one pass,
  \<open>sanitize\<close> of \<open><div><template><p>a</p><p>b</p></template></div>\<close> returns the
  rendering of a document that holds both \<open>p\<close>; sanitizing that result again visits
  them and removes the second.  This holds in every environment whose parser reads the
  input, and the first result, as the trees they denote, and whose serialiser and
  external sanitizer keep the documents of the two calls apart.
\<close>

theorem sanitize_twice_template:
  assumes "parseFromString E templateInput = templateTree"
    and "parseFromString E (applyDomPurify E (outerHTML E bothTree)
           (compileRules E paragraphRules (passesConfig 1))) = bothTree"
    and "applyDomPurify E (outerHTML E oneTree) (compileRules E paragraphRules (passesConfig 1))
       \<noteq> applyDomPurify E (outerHTML E bothTree)
           (compileRules E paragraphRules (passesConfig 1))"
  shows "sanitize E templateInput paragraphRules (passesConfig 1)
           = Inr (applyDomPurify E (outerHTML E bothTree)
                   (compileRules E paragraphRules (passesConfig 1)))
       \<and> sanitize E (applyDomPurify E (outerHTML E bothTree)
                        (compileRules E paragraphRules (passesConfig 1)))
            paragraphRules (passesConfig 1)
           = Inr (applyDomPurify E (outerHTML E oneTree)
                   (compileRules E paragraphRules (passesConfig 1)))
       \<and> sanitize E (applyDomPurify E (outerHTML E bothTree)
                        (compileRules E paragraphRules (passesConfig 1)))
            paragraphRules (passesConfig 1)
           \<noteq> sanitize E templateInput paragraphRules (passesConfig 1)"
proof -
  let ?P = "paragraphPolicy 1"
  let ?once = "applyDomPurify E (outerHTML E bothTree) ?P"
  let ?twice = "applyDomPurify E (outerHTML E oneTree) ?P"
  note a = assms[unfolded compile_paragraphs]
  have first: "sanitize E templateInput paragraphRules (passesConfig 1) = Inr ?once"
    using sanitizeLoop_one_pass[OF once_parsed[OF a(1) document_template]]
    by (simp add: sanitize_def sanitizeWithPolicy_def compile_paragraphs
          maxPasses_paragraphPolicy)
  have second: "sanitize E ?once paragraphRules (passesConfig 1) = Inr ?twice"
    using sanitizeLoop_one_pass[OF once_parsed[OF a(2) document_both]]
    by (simp add: sanitize_def sanitizeWithPolicy_def compile_paragraphs
          maxPasses_paragraphPolicy)
  from first second a(3) show ?thesis by (simp add: compile_paragraphs)
qed

text \<open>
  Witness for claim C1: in the scenario the first call returns the document with both
  \<open>p\<close> and the second call the document with one.
\<close>

theorem sanitize_twice_template_witness:
  "parseFromString scenarioEnv templateInput = templateTree
   \<and> parseFromString scenarioEnv bothOutput = bothTree
   \<and> oneOutput \<noteq> bothOutput
   \<and> sanitize scenarioEnv templateInput paragraphRules (passesConfig 1) = Inr bothOutput
   \<and> sanitize scenarioEnv bothOutput paragraphRules (passesConfig 1) = Inr oneOutput"
proof -
  have h: "parseFromString scenarioEnv templateInput = templateTree"
    "parseFromString scenarioEnv (applyDomPurify scenarioEnv (outerHTML scenarioEnv bothTree)
           (compileRules scenarioEnv paragraphRules (passesConfig 1))) = bothTree"
    "applyDomPurify scenarioEnv (outerHTML scenarioEnv oneTree)
         (compileRules scenarioEnv paragraphRules (passesConfig 1))
       \<noteq> applyDomPurify scenarioEnv (outerHTML scenarioEnv bothTree)
           (compileRules scenarioEnv paragraphRules (passesConfig 1))"
    by (simp_all add: scenario_written scenario_parsed scenario_distinct)
  from sanitize_twice_template[OF h] show ?thesis
    by (simp add: scenario_written scenario_parsed scenario_distinct)
qed

section \<open>Claims about the rule compiler\<close>

lemma map_of_mapSet: "map_of (mapSet m k v) = (map_of m)(k \<mapsto> v)"
  by (induction m) (auto simp: fun_eq_iff)

lemma allowedIn_addToSet:
  "allowedIn (addToSet m k x) k' = (if k' = k then insert x (allowedIn m k) else allowedIn m k')"
  by (auto simp: allowedIn_def addToSet_def mapHas_def map_of_mapSet setAdd_def Let_def
           split: option.splits)

lemma compileRules_snoc:
  "compileRules E (rules @ [rule]) cfg = compileRule E (compileRules E rules cfg) rule"
  by (simp add: compileRules_def)

text \<open>
  Claim C9, as stated (the property is added if and only if the first trimmed token is
  exactly \<open>style\<close>), fails: the first token is compared after lower-casing.  The rule
  \<open>STYLE|p|color\<close> has three segments, its first trimmed token is not \<open>style\<close>, and
  it adds \<open>color\<close> under \<open>p\<close>.
\<close>

theorem compileRules_style_rule_counterexample:
  "length (split 124 (js ''STYLE|p|color'')) = 3
   \<and> trim (split 124 (js ''STYLE|p|color'') ! 0) \<noteq> js ''style''
   \<and> styleAllowlist (compileRules scenarioEnv [] (passesConfig 1)) = []
   \<and> styleAllowlist (compileRules scenarioEnv [js ''STYLE|p|color''] (passesConfig 1))
       = [(js ''p'', [js ''color''])]"
  by (simp add: compileRules_def compileRule_def js_def trim_def isWhiteSpace_def
        toLowerCase_def Let_def addToSet_def mapHas_def setAdd_def)

text \<open>
  Claim C9, amended.  For a rule that splits on \<open>|\<close> into exactly three segments,
  compiling it after any rules adds the lower-cased property to \<open>styleAllowlist\<close> under
  the selector (trimmed, its case kept) if and only if the first trimmed token,
  lower-cased, is \<open>style\<close> and the selector and the lower-cased property are not empty;
  otherwise \<open>styleAllowlist\<close> stays as it is.  In both cases \<open>tagCounts\<close>,
  \<open>attrAllowlist\<close> and the config stay as they are.
\<close>

theorem compileRules_style_rule:
  assumes "length (split 124 rule) = 3"
  shows "(let parts = map trim (split 124 rule);
              selector = parts ! 1;
              property = toLowerCase E (parts ! 2);
              P = compileRules E rules cfg;
              P' = compileRules E (rules @ [rule]) cfg in
          tagCounts P' = tagCounts P \<and> attrAllowlist P' = attrAllowlist P
          \<and> config P' = config P
          \<and> (if toLowerCase E (parts ! 0) = js ''style'' \<and> selector \<noteq> [] \<and> property \<noteq> []
              then \<forall>sel. allowedIn (styleAllowlist P') sel =
                     (if sel = selector then insert property (allowedIn (styleAllowlist P) sel)
                      else allowedIn (styleAllowlist P) sel)
              else styleAllowlist P' = styleAllowlist P))"
  using assms
  by (simp add: compileRules_snoc compileRule_def Let_def allowedIn_addToSet)

text \<open>
  Witness for the amended claim C9: \<open>style| .Header |MARGIN\<close> adds \<open>margin\<close> under
  \<open>.Header\<close>.
\<close>

theorem compileRules_style_rule_witness:
  "length (split 124 (js ''style| .Header |MARGIN'')) = 3
   \<and> allowedIn (styleAllowlist
         (compileRules scenarioEnv ([] @ [js ''style| .Header |MARGIN'']) (passesConfig 1)))
         (js ''.Header'') = {js ''margin''}
   \<and> tagCounts (compileRules scenarioEnv ([] @ [js ''style| .Header |MARGIN''])
         (passesConfig 1)) = []"
proof -
  have h: "length (split 124 (js ''style| .Header |MARGIN'')) = 3" by (simp add: js_def)
  have parts: "map trim (split 124 (js ''style| .Header |MARGIN''))
                 = [js ''style'', js ''.Header'', js ''MARGIN'']"
    by (simp add: js_def trim_def isWhiteSpace_def)
  have empty: "compileRules scenarioEnv [] (passesConfig 1) =
     \<lparr>tagCounts = [], attrAllowlist = [], styleAllowlist = [], config = passesConfig 1\<rparr>"
    by (simp add: compileRules_def)
  have low: "toLowerCase scenarioEnv (js ''style'') = js ''style''"
    "toLowerCase scenarioEnv (js ''MARGIN'') = js ''margin''"
    by (simp_all add: toLowerCase_def js_def)
  have ne: "js ''.Header'' \<noteq> []" "js ''margin'' \<noteq> []" by (simp_all add: js_def)
  from compileRules_style_rule[OF h, of scenarioEnv "[]" "passesConfig 1"]
  have "tagCounts (compileRules scenarioEnv ([] @ [js ''style| .Header |MARGIN''])
          (passesConfig 1)) = []
      \<and> allowedIn (styleAllowlist
          (compileRules scenarioEnv ([] @ [js ''style| .Header |MARGIN'']) (passesConfig 1)))
          (js ''.Header'') = {js ''margin''}"
    unfolding Let_def parts by (simp add: empty low ne allowedIn_def)
  with h show ?thesis by blast
qed

section \<open>Claims about the URL danger check\<close>





























section \<open>Claims about the tag enforcer\<close>

lemma sum_list_nonneg_le0:
  fixes f :: "'a \<Rightarrow> int"
  shows "(\<And>x. x \<in> set xs \<Longrightarrow> 0 \<le> f x) \<Longrightarrow> sum_list (map f xs) \<le> 0 \<Longrightarrow> x \<in> set xs \<Longrightarrow> f x = 0"
proof (induction xs)
  case Nil
  then show ?case by simp
next
  case (Cons a xs)
  have nn: "0 \<le> sum_list (map f xs)"
    by (rule sum_list_nonneg) (use Cons.prems(1) in auto)
  have a0: "0 \<le> f a" using Cons.prems(1) by simp
  from Cons.prems(2) nn a0 have "f a = 0" "sum_list (map f xs) \<le> 0" by simp_all
  with Cons show ?case by auto
qed

lemma sum_list_bump:
  fixes u :: "'k \<Rightarrow> int"
  shows "distinct (map fst xs) \<Longrightarrow> (k, c) \<in> set xs \<Longrightarrow>
    sum_list (map (\<lambda>(t, c). c - (if t = k then u t + 1 else u t)) xs)
      = sum_list (map (\<lambda>(t, c). c - u t) xs) - 1"
proof (induction xs)
  case Nil
  then show ?case by simp
next
  case (Cons a xs)
  obtain t d where a: "a = (t, d)" by (cases a)
  show ?case
  proof (cases "t = k")
    case True
    with Cons.prems a have "k \<notin> fst ` set xs" by simp
    then have "map (\<lambda>(t, c). c - (if t = k then u t + 1 else u t)) xs = map (\<lambda>(t, c). c - u t) xs"
      by (intro map_cong) (auto simp: image_iff)
    then have "sum_list (map (\<lambda>(t, c). c - (if t = k then u t + 1 else u t)) xs)
        = sum_list (map (\<lambda>(t, c). c - u t) xs)"
      by (rule arg_cong)
    with True a show ?thesis by simp
  next
    case False
    with Cons.prems a have "(k, c) \<in> set xs" "distinct (map fst xs)" by auto
    from Cons.IH[OF this(2,1)] False a show ?thesis by simp
  qed
qed

lemma usedCount_bump:
  "usedCount (st\<lparr>usedTagCounts := (usedTagCounts st)(tag \<mapsto> usedCount st tag + 1),
                 usedTotalTags := n\<rparr>) t
     = (if t = tag then usedCount st t + 1 else usedCount st t)"
  by (simp add: usedCount_def)

lemma allowedCount_key:
  "allowedCount P tag \<noteq> 0 \<Longrightarrow> (tag, allowedCount P tag) \<in> set (tagCounts P)"
  by (auto simp: allowedCount_def split: option.splits dest: map_of_SomeD)

lemma allowedCount_unique:
  "distinct (map fst (tagCounts P)) \<Longrightarrow> (tag, c) \<in> set (tagCounts P) \<Longrightarrow> allowedCount P tag = c"
  by (simp add: allowedCount_def)

lemma countersOk_full:
  assumes ok: "countersOk P st" and sat: "countsSaturated st"
    and ns: "\<not> isStructural tag" and nz: "allowedCount P tag \<noteq> 0"
  shows "usedCount st tag \<ge> allowedCount P tag"
proof -
  let ?xs = "filter (\<lambda>(tag, count). \<not> isStructural tag) (tagCounts P)"
  let ?f = "\<lambda>(tag, count). count - usedCount st tag"
  from allowedCount_key[OF nz] ns have mem: "(tag, allowedCount P tag) \<in> set ?xs" by simp
  from ok have nonneg: "\<And>x. x \<in> set ?xs \<Longrightarrow> 0 \<le> ?f x" by (auto simp: countersOk_def)
  from ok sat have "sum_list (map ?f ?xs) \<le> 0" by (simp add: countersOk_def)
  from sum_list_nonneg_le0[of ?xs ?f, OF nonneg this mem] show ?thesis by simp
qed

lemma enforceTag_counting:
  "countersOk P st \<Longrightarrow> enforceTag P st tag = enforceTagCounting P st tag"
  using countersOk_full[of P st tag]
  by (auto simp: enforceTag_def enforceTagCounting_def)

lemma countersOk_keep:
  assumes ok: "countersOk P st" and v: "validCounts P"
    and k: "enforceTagCounting P st tag = Keep st1"
  shows "countersOk P st1"
proof (cases "isStructural tag")
  case True
  with k have "st1 = st" by (auto simp: enforceTagCounting_def split: if_splits)
  with ok show ?thesis by simp
next
  case False
  with k have nz: "allowedCount P tag \<noteq> 0" and lt: "usedCount st tag < allowedCount P tag"
    and st1: "st1 = st\<lparr>usedTagCounts := (usedTagCounts st)(tag \<mapsto> usedCount st tag + 1),
                       usedTotalTags := usedTotalTags st + 1\<rparr>"
    by (auto simp: enforceTagCounting_def split: if_splits)
  let ?xs = "filter (\<lambda>(tag, count). \<not> isStructural tag) (tagCounts P)"
  from v have d: "distinct (map fst ?xs)" by (simp add: validCounts_def distinct_map_filter)
  from allowedCount_key[OF nz] False have mem: "(tag, allowedCount P tag) \<in> set ?xs" by simp
  have u: "\<And>t. usedCount st1 t = (if t = tag then usedCount st t + 1 else usedCount st t)"
    unfolding st1 by (rule usedCount_bump)
  have s: "sum_list (map (\<lambda>(t, c). c - usedCount st1 t) ?xs)
         = sum_list (map (\<lambda>(t, c). c - usedCount st t) ?xs) - 1"
    unfolding u by (rule sum_list_bump[OF d mem])
  have b: "\<forall>(t, c) \<in> set (tagCounts P). \<not> isStructural t \<longrightarrow> usedCount st1 t \<le> c"
  proof (clarify)
    fix t c assume tc: "(t, c) \<in> set (tagCounts P)" and nst: "\<not> isStructural t"
    show "usedCount st1 t \<le> c"
    proof (cases "t = tag")
      case True
      from v tc have "allowedCount P t = c" by (simp add: validCounts_def allowedCount_unique)
      with True lt show ?thesis by (simp add: u)
    next
      case False
      with ok tc nst show ?thesis by (auto simp: u countersOk_def)
    qed
  qed
  have tot: "usedTotalTags st1 = usedTotalTags st + 1" and fl: "countsSaturated st1 = countsSaturated st"
    by (simp_all add: st1)
  have notsat: "\<not> countsSaturated st"
  proof
    assume "countsSaturated st"
    from countersOk_full[OF ok this False nz] lt show False by simp
  qed
  from ok b s tot fl notsat show ?thesis by (simp add: countersOk_def)
qed

lemma countersOk_saturate: "countersOk P st \<Longrightarrow> countersOk P (saturate P st tag)"
  by (auto simp: countersOk_def saturate_def usedCount_def)

lemma countersOk_initial: "validCounts P \<Longrightarrow> countersOk P (initialState P)"
  by (auto simp: countersOk_def initialState_def usedCount_def totalAllowedTags_def validCounts_def
      intro!: arg_cong[where f = sum_list])


lemma sanitizeElements_counting:
  "validCounts P \<Longrightarrow> countersOk P st \<Longrightarrow>
   sanitizeElements E P st ns = sanitizeElementsCounting E P st ns
   \<and> (\<forall>f t. sanitizeElements E P st ns = Inr (f, t) \<longrightarrow> countersOk P t)"
proof (induction E P st ns rule: sanitizeElements.induct)
  case (1 E P st)
  then show ?case by simp
next
  case (2 E P st t rest)
  then show ?case by (auto split: sum.splits)
next
  case (3 E P st t rest)
  then show ?case by (auto split: sum.splits)
next
  case (4 E P st name attrs kids rest)
  let ?tag = "toLowerCase E name"
  note v = "4.prems"(1) and ok = "4.prems"(2)
  have ev: "enforceTag P st ?tag = enforceTagCounting P st ?tag"
    by (rule enforceTag_counting[OF ok])
  show ?case
  proof (cases "enforceTag P st ?tag")
    case Remove
    from "4.IH"(1)[OF refl Remove v ok] Remove ev show ?thesis by simp
  next
    case Unwrap
    from "4.IH"(2)[OF refl Unwrap v ok] Unwrap ev show ?thesis by simp
  next
    case (Keep st1)
    with ev have kc: "enforceTagCounting P st ?tag = Keep st1" by simp
    have ok1: "countersOk P st1" by (rule countersOk_keep[OF ok v kc])
    let ?st2 = "saturate P st1 ?tag"
    have ok2: "countersOk P ?st2" by (rule countersOk_saturate[OF ok1])
    show ?thesis
    proof (cases "filterAttributes E attrs ?tag (attrAllowlist P) (styleAllowlist P)
                    (policyAllowCommon P) (policyAllowJS P)")
      case (Inl e)
      with Keep kc show ?thesis by simp
    next
      case (Inr attrs')
      show ?thesis
      proof (cases "?tag = js ''style''")
        case True
        show ?thesis
        proof (cases "filterStyleElement E kids (styleAllowlist P)")
          case None
          from "4.IH"(3)[OF refl Keep Inr refl True None v ok2] Keep kc Inr True None
          show ?thesis by simp
        next
          case (Some filtered)
          from "4.IH"(4)[OF refl Keep Inr refl True Some v ok2] Keep kc Inr True Some
          show ?thesis by (auto split: sum.splits)
        qed
      next
        case False
        note ihk = "4.IH"(5)[OF refl Keep Inr refl False v ok2]
        show ?thesis
        proof (cases "sanitizeElements E P ?st2 kids")
          case l: (Inl e)
          with ihk have c: "sanitizeElementsCounting E P ?st2 kids = Inl e" by simp
          from l c Keep kc Inr False show ?thesis by simp
        next
          case r: (Inr res)
          obtain kids' st3 where res: "res = (kids', st3)" by (cases res)
          from ihk r res have ok3: "countersOk P st3" by simp
          from ihk r res have c: "sanitizeElementsCounting E P ?st2 kids = Inr (kids', st3)"
            by simp
          from "4.IH"(6)[OF refl Keep Inr refl False r res[symmetric] v ok3]
            c Keep kc Inr False r res
          show ?thesis by (auto split: sum.splits)
        qed
      qed
    qed
  qed
next
  case (5 E P st attrs content rest)
  let ?tag = "toLowerCase E (js ''TEMPLATE'')"
  note v = "5.prems"(1) and ok = "5.prems"(2)
  have ev: "enforceTag P st ?tag = enforceTagCounting P st ?tag"
    by (rule enforceTag_counting[OF ok])
  show ?case
  proof (cases "enforceTag P st ?tag")
    case Remove
    from "5.IH"(1)[OF refl Remove v ok] Remove ev show ?thesis by simp
  next
    case Unwrap
    from "5.IH"(2)[OF refl Unwrap v ok] Unwrap ev show ?thesis
      by (auto split: sum.splits)
  next
    case (Keep st1)
    with ev have kc: "enforceTagCounting P st ?tag = Keep st1" by simp
    have ok1: "countersOk P st1" by (rule countersOk_keep[OF ok v kc])
    have ok2: "countersOk P (saturate P st1 ?tag)" by (rule countersOk_saturate[OF ok1])
    show ?thesis
    proof (cases "filterAttributes E attrs ?tag (attrAllowlist P) (styleAllowlist P)
                    (policyAllowCommon P) (policyAllowJS P)")
      case (Inl e)
      with Keep kc show ?thesis by simp
    next
      case (Inr attrs')
      from "5.IH"(3)[OF refl Keep Inr v ok2] Keep kc Inr show ?thesis
        by (auto split: sum.splits)
    qed
  qed
qed

lemma map_fst_mapSet:
  "map fst (mapSet m k v) = (if k \<in> fst ` set m then map fst m else map fst m @ [k])"
  by (induction m k v rule: mapSet.induct) (auto simp: image_iff)

lemma set_mapSet: "set (mapSet m k v) \<subseteq> insert (k, v) (set m)"
  by (induction m k v rule: mapSet.induct) auto

lemma validCounts_compileRule:
  assumes "validCounts p"
  shows "validCounts (compileRule E p rule)"
proof -
  have step: "validCounts (p\<lparr>tagCounts := mapSet (tagCounts p) tag
                 ((case map_of (tagCounts p) tag of None \<Rightarrow> 0 | Some n \<Rightarrow> n) + 1)\<rparr>)" for tag
  proof -
    let ?v = "(case map_of (tagCounts p) tag of None \<Rightarrow> 0 | Some n \<Rightarrow> n) + 1"
    from assms have "0 \<le> ?v"
      by (auto simp: validCounts_def split: option.splits dest!: map_of_SomeD)
    moreover from assms have "distinct (map fst (mapSet (tagCounts p) tag ?v))"
      by (auto simp: validCounts_def map_fst_mapSet)
    ultimately show ?thesis
      using assms set_mapSet[of "tagCounts p" tag ?v] by (fastforce simp: validCounts_def)
  qed
  have other: "validCounts (p\<lparr>attrAllowlist := a\<rparr>)" "validCounts (p\<lparr>styleAllowlist := a\<rparr>)" for a
    using assms by (simp_all add: validCounts_def)
  show ?thesis unfolding compileRule_def Let_def using assms step other by simp
qed

lemma validCounts_compileRules: "validCounts (compileRules E rules cfg)"
proof (induction rules rule: rev_induct)
  case Nil
  show ?case by (simp add: compileRules_def validCounts_def)
next
  case (snoc r rs)
  then show ?case by (simp add: compileRules_snoc validCounts_compileRule)
qed

text \<open>
  Claim C6.  The saturation shortcut changes no behaviour: for every document and every
  policy (whose \<open>tagCounts\<close> is a map with budgets that are not negative, as every
  compiled policy is), the filtering pass with the saturation branch and the same pass
  without it give the same result, the same document or the same error.
\<close>

theorem sanitizeDocument_saturation:
  "validCounts P \<Longrightarrow> sanitizeDocument E P root = sanitizeDocumentCounting E P root"
  using sanitizeElements_counting[OF _ countersOk_initial, of P E "[root]"]
  by (simp add: sanitizeDocument_def sanitizeDocumentCounting_def)

text \<open>
  Witness for claim C6: with a budget of one \<open>div\<close> and one \<open>p\<close>, the counters are
  saturated after the first \<open>p\<close> of the scenario, and its second \<open>p\<close> is removed by
  the pass without the shortcut, as by the pass with it.
\<close>

theorem sanitizeDocument_saturation_witness:
  "validCounts (paragraphPolicy 1)
   \<and> sanitizeDocument scenarioEnv (paragraphPolicy 1) bothTree = Inr oneTree
   \<and> sanitizeDocumentCounting scenarioEnv (paragraphPolicy 1) bothTree = Inr oneTree"
proof -
  have h: "validCounts (paragraphPolicy 1)"
    by (simp add: validCounts_def paragraphPolicy_def js_def)
  have c: "sanitizeDocumentCounting scenarioEnv (paragraphPolicy 1) bothTree = Inr oneTree"
    by (simp add: sanitizeDocumentCounting_def enforceTagCounting_def scenario_defs
          cong: sum.case_cong_weak option.case_cong_weak verdict.case_cong_weak)
  from sanitizeDocument_saturation[OF h, of scenarioEnv bothTree] c h show ?thesis by simp
qed

section \<open>Runs of the loop over the elements\<close>

text \<open>
  Induction over a run of the loop that returns, on nodes that hold no template
  element.
\<close>

lemma templateFree_append: "templateFree (xs @ ys) \<longleftrightarrow> templateFree xs \<and> templateFree ys"
  by (induction xs rule: templateFree.induct) simp_all

lemma sanitizeElements_induct [consumes 2, case_names Nil Text Comment Remove Unwrap StyleGone StyleKept Keep]:
  assumes run: "sanitizeElements E P st ns = Inr (f, t)"
    and tf: "templateFree ns"
    and rNil: "\<And>st. Q st [] [] st"
    and rText: "\<And>st s rest f t. sanitizeElements E P st rest = Inr (f, t) \<Longrightarrow> Q st rest f t
                 \<Longrightarrow> Q st (Text s # rest) (Text s # f) t"
    and rComment: "\<And>st s rest f t. sanitizeElements E P st rest = Inr (f, t) \<Longrightarrow> Q st rest f t
                 \<Longrightarrow> Q st (Comment s # rest) (Comment s # f) t"
    and rRemove: "\<And>st name attrs kids rest f t.
        enforceTag P st (toLowerCase E name) = Remove \<Longrightarrow>
        sanitizeElements E P st rest = Inr (f, t) \<Longrightarrow> Q st rest f t \<Longrightarrow>
        Q st (Element name attrs kids # rest) f t"
    and rUnwrap: "\<And>st name attrs kids rest f t.
        enforceTag P st (toLowerCase E name) = Unwrap \<Longrightarrow>
        sanitizeElements E P st (kids @ rest) = Inr (f, t) \<Longrightarrow> Q st (kids @ rest) f t \<Longrightarrow>
        Q st (Element name attrs kids # rest) f t"
    and rStyleGone: "\<And>st name attrs kids rest f t st1 attrs'.
        enforceTag P st (toLowerCase E name) = Keep st1 \<Longrightarrow>
        filterAttributes E attrs (toLowerCase E name) (attrAllowlist P) (styleAllowlist P)
          (policyAllowCommon P) (policyAllowJS P) = Inr attrs' \<Longrightarrow>
        toLowerCase E name = js ''style'' \<Longrightarrow>
        filterStyleElement E kids (styleAllowlist P) = None \<Longrightarrow>
        sanitizeElements E P (saturate P st1 (toLowerCase E name)) rest = Inr (f, t) \<Longrightarrow>
        Q (saturate P st1 (toLowerCase E name)) rest f t \<Longrightarrow>
        Q st (Element name attrs kids # rest) f t"
    and rStyleKept: "\<And>st name attrs kids rest f t st1 attrs' filtered.
        enforceTag P st (toLowerCase E name) = Keep st1 \<Longrightarrow>
        filterAttributes E attrs (toLowerCase E name) (attrAllowlist P) (styleAllowlist P)
          (policyAllowCommon P) (policyAllowJS P) = Inr attrs' \<Longrightarrow>
        toLowerCase E name = js ''style'' \<Longrightarrow>
        filterStyleElement E kids (styleAllowlist P) = Some filtered \<Longrightarrow>
        sanitizeElements E P (saturate P st1 (toLowerCase E name)) rest = Inr (f, t) \<Longrightarrow>
        Q (saturate P st1 (toLowerCase E name)) rest f t \<Longrightarrow>
        Q st (Element name attrs kids # rest) (Element name attrs' [Text filtered] # f) t"
    and rKeep: "\<And>st name attrs kids rest f t st1 attrs' kids' st3.
        enforceTag P st (toLowerCase E name) = Keep st1 \<Longrightarrow>
        filterAttributes E attrs (toLowerCase E name) (attrAllowlist P) (styleAllowlist P)
          (policyAllowCommon P) (policyAllowJS P) = Inr attrs' \<Longrightarrow>
        toLowerCase E name \<noteq> js ''style'' \<Longrightarrow>
        sanitizeElements E P (saturate P st1 (toLowerCase E name)) kids = Inr (kids', st3) \<Longrightarrow>
        Q (saturate P st1 (toLowerCase E name)) kids kids' st3 \<Longrightarrow>
        sanitizeElements E P st3 rest = Inr (f, t) \<Longrightarrow> Q st3 rest f t \<Longrightarrow>
        Q st (Element name attrs kids # rest) (Element name attrs' kids' # f) t"
  shows "Q st ns f t"
  using run tf
proof (induction "sum_list (map weight ns)" arbitrary: st ns f t rule: less_induct)
  case less
  note IH = less.hyps and run = less.prems(1) and tf = less.prems(2)
  show ?case
  proof (cases ns)
    case Nil
    with run show ?thesis using rNil by simp
  next
    case (Cons n rest)
    show ?thesis
    proof (cases n)
      case (Text s)
      from run Cons Text obtain f' where r: "sanitizeElements E P st rest = Inr (f', t)"
        and f: "f = Text s # f'" by (auto split: sum.splits)
      from tf Cons Text have tfr: "templateFree rest" by simp
      have "Q st rest f' t" by (rule IH[OF _ r tfr]) (simp add: Cons Text)
      from rText[OF r this] Cons Text f show ?thesis by simp
    next
      case (Comment s)
      from run Cons Comment obtain f' where r: "sanitizeElements E P st rest = Inr (f', t)"
        and f: "f = Comment s # f'" by (auto split: sum.splits)
      from tf Cons Comment have tfr: "templateFree rest" by simp
      have "Q st rest f' t" by (rule IH[OF _ r tfr]) (simp add: Cons Comment)
      from rComment[OF r this] Cons Comment f show ?thesis by simp
    next
      case (Template attrs content)
      with tf Cons show ?thesis by simp
    next
      case (Element name attrs kids)
      let ?tag = "toLowerCase E name"
      note ns = Cons Element
      from tf ns have tfk: "templateFree kids" and tfr: "templateFree rest"
        and tfu: "templateFree (kids @ rest)" by (simp_all add: templateFree_append)
      show ?thesis
      proof (cases "enforceTag P st ?tag")
        case Remove
        with run ns have r: "sanitizeElements E P st rest = Inr (f, t)" by simp
        have "Q st rest f t" by (rule IH[OF _ r tfr]) (simp add: ns)
        from rRemove[OF Remove r this] ns show ?thesis by simp
      next
        case Unwrap
        with run ns have r: "sanitizeElements E P st (kids @ rest) = Inr (f, t)" by simp
        have "Q st (kids @ rest) f t" by (rule IH[OF _ r tfu]) (simp add: ns)
        from rUnwrap[OF Unwrap r this] ns show ?thesis by simp
      next
        case (Keep st1)
        let ?st2 = "saturate P st1 ?tag"
        from run ns Keep obtain attrs' where
          fa: "filterAttributes E attrs ?tag (attrAllowlist P) (styleAllowlist P)
                (policyAllowCommon P) (policyAllowJS P) = Inr attrs'"
          by (auto simp: Let_def split: sum.splits)
        show ?thesis
        proof (cases "?tag = js ''style''")
          case True
          show ?thesis
          proof (cases "filterStyleElement E kids (styleAllowlist P)")
            case None
            with run ns Keep fa True
            have r: "sanitizeElements E P ?st2 rest = Inr (f, t)" by (simp add: Let_def)
            have "Q ?st2 rest f t" by (rule IH[OF _ r tfr]) (simp add: ns)
            from rStyleGone[OF Keep fa True None r this] ns show ?thesis by simp
          next
            case (Some filtered)
            with run ns Keep fa True obtain f' where
              r: "sanitizeElements E P ?st2 rest = Inr (f', t)"
              and f: "f = Element name attrs' [Text filtered] # f'"
              by (auto simp: Let_def split: sum.splits)
            have "Q ?st2 rest f' t" by (rule IH[OF _ r tfr]) (simp add: ns)
            from rStyleKept[OF Keep fa True Some r this] ns f show ?thesis by simp
          qed
        next
          case False
          with run ns Keep fa obtain kids' st3 f' where
            rk: "sanitizeElements E P ?st2 kids = Inr (kids', st3)"
            and rr: "sanitizeElements E P st3 rest = Inr (f', t)"
            and f: "f = Element name attrs' kids' # f'"
            by (auto simp: Let_def split: sum.splits)
          have qk: "Q ?st2 kids kids' st3" by (rule IH[OF _ rk tfk]) (simp add: ns)
          have qr: "Q st3 rest f' t" by (rule IH[OF _ rr tfr]) (simp add: ns)
          from rKeep[OF Keep fa False rk qk rr qr] ns f show ?thesis by simp
        qed
      qed
    qed
  qed
qed


section \<open>Claims about the budgets of tags\<close>

lemma enforceTag_keep_count:
  "enforceTag P st x = Keep st1 \<Longrightarrow> \<not> isStructural tag \<Longrightarrow>
   usedCount st1 tag = usedCount st tag + (if x = tag then 1 else 0)"
  by (auto simp: enforceTag_def usedCount_def split: if_splits)

lemma usedCount_saturate [simp]: "usedCount (saturate P st x) tag = usedCount st tag"
  by (simp add: saturate_def usedCount_def)

lemma enforceTag_keep_bounded:
  "enforceTag P st x = Keep st1 \<Longrightarrow> (\<forall>tag. usedCount st tag \<le> allowedCount P tag) \<Longrightarrow>
   usedCount st1 tag \<le> allowedCount P tag"
  by (auto simp: enforceTag_def usedCount_def split: if_splits)

lemma sanitizeElements_count:
  assumes "sanitizeElements E P st ns = Inr (f, t)" and "templateFree ns"
    and "\<not> isStructural tag"
  shows "int (countTag E tag f) + usedCount st tag \<le> usedCount t tag"
  using assms(1,2)
proof (induction rule: sanitizeElements_induct)
  case (Keep st name attrs kids rest f t st1 attrs' kids' st3)
  from enforceTag_keep_count[OF Keep.hyps(1) assms(3)] Keep.IH show ?case by (auto split: if_splits)
next
  case (StyleKept st name attrs kids rest f t st1 attrs' filtered)
  from enforceTag_keep_count[OF StyleKept.hyps(1) assms(3)] StyleKept.IH show ?case by (auto split: if_splits)
next
  case (StyleGone st name attrs kids rest f t st1 attrs')
  from enforceTag_keep_count[OF StyleGone.hyps(1) assms(3)] StyleGone.IH show ?case by (auto split: if_splits)
qed simp_all

lemma sanitizeElements_bounded:
  assumes "sanitizeElements E P st ns = Inr (f, t)" and "templateFree ns"
  shows "(\<forall>tag. usedCount st tag \<le> allowedCount P tag) \<Longrightarrow>
         (\<forall>tag. usedCount t tag \<le> allowedCount P tag)"
  using assms
proof (induction rule: sanitizeElements_induct)
  case (Keep st name attrs kids rest f t st1 attrs' kids' st3)
  have "\<forall>tag. usedCount (saturate P st1 (toLowerCase E name)) tag \<le> allowedCount P tag"
    using enforceTag_keep_bounded[OF Keep.hyps(1) Keep.prems] by simp
  then have "\<forall>tag. usedCount st3 tag \<le> allowedCount P tag" by (rule Keep.IH(1))
  then show ?case by (rule Keep.IH(2))
next
  case (StyleKept st name attrs kids rest f t st1 attrs' filtered)
  have "\<forall>tag. usedCount (saturate P st1 (toLowerCase E name)) tag \<le> allowedCount P tag"
    using enforceTag_keep_bounded[OF StyleKept.hyps(1) StyleKept.prems] by simp
  then show ?case by (rule StyleKept.IH)
next
  case (StyleGone st name attrs kids rest f t st1 attrs')
  have "\<forall>tag. usedCount (saturate P st1 (toLowerCase E name)) tag \<le> allowedCount P tag"
    using enforceTag_keep_bounded[OF StyleGone.hyps(1) StyleGone.prems] by simp
  then show ?case by (rule StyleGone.IH)
qed simp_all

lemma enforceTag_structural:
  "isStructural x \<Longrightarrow> enforceTag P st x = Keep st"
  by (auto simp: enforceTag_def isStructural_def STRUCTURAL_TAGS_def js_def)

lemma structuralNames_append:
  "structuralNames E (xs @ ys) = structuralNames E xs @ structuralNames E ys"
  by (induction E xs rule: structuralNames.induct) simp_all

lemma sanitizeElements_structural:
  assumes "sanitizeElements E P st ns = Inr (f, t)" and "templateFree ns"
  shows "subseq (structuralNames E ns) (structuralNames E f)"
  using assms
proof (induction rule: sanitizeElements_induct)
  case (Remove st name attrs kids rest f t)
  then show ?case using enforceTag_structural[of "toLowerCase E name" P st] by auto
next
  case (Unwrap st name attrs kids rest f t)
  have "subseq (structuralNames E rest) (structuralNames E (kids @ rest))"
    unfolding structuralNames_append by (rule list_emb_append2) simp
  with Unwrap show ?case
    using enforceTag_structural[of "toLowerCase E name" P st] subseq_order.order_trans by auto
next
  case (StyleGone st name attrs kids rest f t st1 attrs')
  then show ?case by (simp add: isStructural_def STRUCTURAL_TAGS_def js_def)
next
  case (StyleKept st name attrs kids rest f t st1 attrs' filtered)
  then show ?case by (simp add: isStructural_def STRUCTURAL_TAGS_def js_def)
qed simp_all

lemma allowedCount_compileRule:
  "allowedCount (compileRule E p rule) tag =
     allowedCount p tag +
       (let parts = map trim (split 124 rule)
        in if length parts = 1 \<and> toLowerCase E (parts ! 0) = tag \<and> tag \<noteq> [] then 1 else 0)"
  by (auto simp: compileRule_def allowedCount_def map_of_mapSet Let_def)

lemma allowedCount_compileRules:
  "allowedCount (compileRules E rules cfg) tag =
     (if tag = [] then 0 else int (ruleBudget E rules tag))"
proof (induction rules rule: rev_induct)
  case Nil
  show ?case by (simp add: compileRules_def allowedCount_def ruleBudget_def)
next
  case (snoc r rs)
  then show ?case
    by (auto simp: compileRules_snoc allowedCount_compileRule ruleBudget_def Let_def)
qed

lemma once_shape:
  "sanitizeOnceWithPolicy E x P = Inr out \<Longrightarrow>
   \<exists>doc. sanitizeDocument E P (parseFromString E x) = Inr doc
        \<and> out = applyDomPurify E (outerHTML E doc) P"
  by (auto simp: sanitizeOnceWithPolicy_def split: sum.splits)

lemma last_pass:
  assumes "0 < maxPassesOf P" and "sanitizeWithPolicy E html P = Inr out"
  shows "sanitizeOnceWithPolicy E (lastPassInput E P html) P = Inr out"
proof -
  from assms(1) have "passInputs E P (maxPassesOf P) 0 html \<noteq> []"
    by (simp add: passInputs_empty)
  with assms(2) show ?thesis
    unfolding sanitizeWithPolicy_def sanitizeLoop_last lastPassInput_def by auto
qed

lemma countTag_find:
  "find isElement f = Some d \<Longrightarrow> countTag E tag [d] \<le> countTag E tag f"
proof (induction f)
  case Nil
  then show ?case by simp
next
  case (Cons n f)
  then show ?case by (cases n) (auto split: if_splits)
qed

lemma usedCount_initial [simp]: "usedCount (initialState P) tag = 0"
  by (simp add: usedCount_def initialState_def)

lemma document_budget:
  assumes doc: "sanitizeDocument E P root = Inr doc"
    and tf: "templateFree [root]"
    and nonneg: "\<forall>tag. 0 \<le> allowedCount P tag"
    and ns: "\<not> isStructural tag"
  shows "int (countTag E tag [doc]) \<le> allowedCount P tag"
proof -
  from doc obtain f t where run: "sanitizeElements E P (initialState P) [root] = Inr (f, t)"
    and fd: "find isElement f = Some doc"
    by (auto simp: sanitizeDocument_def split: sum.splits option.splits)
  from sanitizeElements_count[OF run tf ns] have "int (countTag E tag f) \<le> usedCount t tag" by simp
  moreover from sanitizeElements_bounded[OF run tf] nonneg
  have "usedCount t tag \<le> allowedCount P tag" by simp
  moreover from countTag_find[OF fd] have "countTag E tag [doc] \<le> countTag E tag f" .
  ultimately show ?thesis by linarith
qed

lemma document_structural:
  assumes doc: "sanitizeDocument E P (Element name attrs kids) = Inr doc"
    and tf: "templateFree kids"
    and s: "isStructural (toLowerCase E name)"
  shows "\<exists>attrs' kids'. doc = Element name attrs' kids'
           \<and> subseq (structuralNames E kids) (structuralNames E kids')"
proof -
  from s have nst: "toLowerCase E name \<noteq> js ''style''"
    by (auto simp: isStructural_def STRUCTURAL_TAGS_def js_def)
  let ?st = "saturate P (initialState P) (toLowerCase E name)"
  from doc obtain attrs' kids' st3 where
    run: "sanitizeElements E P ?st kids = Inr (kids', st3)" and d: "doc = Element name attrs' kids'"
    using enforceTag_structural[OF s, of P "initialState P"] nst
    by (auto simp: sanitizeDocument_def Let_def split: sum.splits option.splits)
  from sanitizeElements_structural[OF run tf] d show ?thesis by blast
qed


text \<open>
  Claim C2, as stated (in the output of \<open>sanitize\<close>, for every text, rule list and
  config, each non-structural tag occurs at most as often as its budget), fails when no
  pass runs.  With \<open>maxPasses\<close> zero the text comes back as it is: a document with two
  \<open>p\<close> elements, under a rule list that allows none.
\<close>

theorem sanitize_budget_counterexample:
  "sanitize scenarioEnv bothOutput [] (passesConfig 0) = Inr bothOutput
   \<and> \<not> isStructural (js ''p'')
   \<and> countTag scenarioEnv (js ''p'') [parseFromString scenarioEnv bothOutput] = 2
   \<and> ruleBudget scenarioEnv [] (js ''p'') = 0"
proof -
  have a: "sanitize scenarioEnv bothOutput [] (passesConfig 0) = Inr bothOutput"
    by (simp add: sanitize_def sanitizeWithPolicy_def sanitizeLoop_stop maxPassesOf_def
          compileRules_def passesConfig_def)
  have b: "countTag scenarioEnv (js ''p'') [parseFromString scenarioEnv bothOutput] = 2"
    unfolding scenario_parsed
    by (simp add: bothTree_def paragraphs_def document_def toLowerCase_def js_def)
  have d: "ruleBudget scenarioEnv [] (js ''p'') = 0" "\<not> isStructural (js ''p'')"
    by (simp_all add: ruleBudget_def isStructural_def STRUCTURAL_TAGS_def js_def)
  from a b d show ?thesis by blast
qed

text \<open>
  Claim C2, amended.  Whenever \<open>sanitize\<close> returns and at least one pass runs
  (\<open>maxPasses\<close> is positive), the text that the last pass ran on holds no template
  element, and the parser finds in the output no more elements of any tag than the
  document that this pass serialised holds: in the output each non-structural tag
  occurs at most as often as one-segment rules name it, so not at all when no rule
  names it.  The tag enforcement of that pass keeps the structural elements: a
  structural root is kept, and the structural elements among its children are kept, in
  their order.
\<close>

theorem sanitize_budget:
  assumes "sanitize E html rules cfg = Inr out"
    and "0 < maxPassesOf (compileRules E rules cfg)"
    and "templateFree [parseFromString E (lastPassInput E (compileRules E rules cfg) html)]"
    and "\<forall>doc. sanitizeDocument E (compileRules E rules cfg)
                 (parseFromString E (lastPassInput E (compileRules E rules cfg) html)) = Inr doc
           \<longrightarrow> (\<forall>tag. countTag E tag [parseFromString E out] \<le> countTag E tag [doc])"
  shows "(\<forall>tag. \<not> isStructural tag \<longrightarrow>
            countTag E tag [parseFromString E out] \<le> ruleBudget E rules tag)
       \<and> (\<forall>name attrs kids.
             parseFromString E (lastPassInput E (compileRules E rules cfg) html)
               = Element name attrs kids
             \<and> isStructural (toLowerCase E name) \<longrightarrow>
             (\<exists>attrs' kids'.
                sanitizeDocument E (compileRules E rules cfg) (Element name attrs kids)
                  = Inr (Element name attrs' kids')
                \<and> subseq (structuralNames E kids) (structuralNames E kids')))"
proof -
  let ?P = "compileRules E rules cfg"
  let ?x = "lastPassInput E ?P html"
  from assms(1) have "sanitizeWithPolicy E html ?P = Inr out" by (simp add: sanitize_def)
  from once_shape[OF last_pass[OF assms(2) this]] obtain doc where
    d: "sanitizeDocument E ?P (parseFromString E ?x) = Inr doc" by blast
  have nonneg: "\<forall>tag. 0 \<le> allowedCount ?P tag" by (simp add: allowedCount_compileRules)
  have b: "\<forall>tag. \<not> isStructural tag \<longrightarrow>
            countTag E tag [parseFromString E out] \<le> ruleBudget E rules tag"
  proof (intro allI impI)
    fix tag assume ns: "\<not> isStructural tag"
    from document_budget[OF d assms(3) nonneg ns]
    have "countTag E tag [doc] \<le> ruleBudget E rules tag"
      by (simp add: allowedCount_compileRules split: if_splits)
    moreover from assms(4) d have "countTag E tag [parseFromString E out] \<le> countTag E tag [doc]"
      by blast
    ultimately show "countTag E tag [parseFromString E out] \<le> ruleBudget E rules tag"
      by simp
  qed
  have c: "\<forall>name attrs kids.
             parseFromString E ?x = Element name attrs kids
             \<and> isStructural (toLowerCase E name) \<longrightarrow>
             (\<exists>attrs' kids'.
                sanitizeDocument E ?P (Element name attrs kids) = Inr (Element name attrs' kids')
                \<and> subseq (structuralNames E kids) (structuralNames E kids'))"
  proof (intro allI impI)
    fix name attrs kids
    assume h: "parseFromString E ?x = Element name attrs kids
             \<and> isStructural (toLowerCase E name)"
    with assms(3) have tfk: "templateFree kids" by simp
    from d h have d': "sanitizeDocument E ?P (Element name attrs kids) = Inr doc" by simp
    from document_structural[OF d' tfk] h d'
    show "\<exists>attrs' kids'.
            sanitizeDocument E ?P (Element name attrs kids) = Inr (Element name attrs' kids')
            \<and> subseq (structuralNames E kids) (structuralNames E kids')" by auto
  qed
  from b c show ?thesis by blast
qed

text \<open>
  Witness for the amended claim C2: with five passes allowed and the rules \<open>div\<close> and
  \<open>p\<close>, the last pass of the scenario runs on a document without template element,
  and the output holds one \<open>p\<close>.
\<close>

theorem sanitize_budget_witness:
  "sanitize scenarioEnv templateInput paragraphRules (passesConfig 5) = Inr oneOutput
   \<and> 0 < maxPassesOf (compileRules scenarioEnv paragraphRules (passesConfig 5))
   \<and> lastPassInput scenarioEnv (compileRules scenarioEnv paragraphRules (passesConfig 5))
         templateInput = oneOutput
   \<and> templateFree [parseFromString scenarioEnv oneOutput]
   \<and> sanitizeDocument scenarioEnv (compileRules scenarioEnv paragraphRules (passesConfig 5))
         (parseFromString scenarioEnv oneOutput) = Inr (parseFromString scenarioEnv oneOutput)
   \<and> \<not> isStructural (js ''p'')
   \<and> countTag scenarioEnv (js ''p'') [parseFromString scenarioEnv oneOutput]
       \<le> ruleBudget scenarioEnv paragraphRules (js ''p'')
   \<and> countTag scenarioEnv (js ''p'') [parseFromString scenarioEnv oneOutput] = 1"
proof -
  let ?P = "compileRules scenarioEnv paragraphRules (passesConfig 5)"
  have P: "?P = paragraphPolicy 5" by (rule compile_paragraphs)
  have h1: "sanitize scenarioEnv templateInput paragraphRules (passesConfig 5) = Inr oneOutput"
    by (simp add: sanitize_def sanitizeWithPolicy_def P sanitizeLoop_last
          maxPasses_paragraphPolicy inputs_template_5 once_one)
  have h2: "0 < maxPassesOf ?P" by (simp add: P maxPasses_paragraphPolicy)
  have l: "lastPassInput scenarioEnv ?P templateInput = oneOutput"
    by (simp add: P last_template_5)
  have h3: "templateFree [parseFromString scenarioEnv (lastPassInput scenarioEnv ?P templateInput)]"
    by (simp add: l scenario_parsed oneTree_def document_def)
  have d: "sanitizeDocument scenarioEnv ?P (parseFromString scenarioEnv oneOutput)
             = Inr (parseFromString scenarioEnv oneOutput)"
    by (simp add: P scenario_parsed document_one)
  have h4: "\<forall>doc. sanitizeDocument scenarioEnv ?P
                 (parseFromString scenarioEnv (lastPassInput scenarioEnv ?P templateInput)) = Inr doc
           \<longrightarrow> (\<forall>tag. countTag scenarioEnv tag [parseFromString scenarioEnv oneOutput]
                        \<le> countTag scenarioEnv tag [doc])"
    using d by (simp add: l)
  have one: "countTag scenarioEnv (js ''p'') [parseFromString scenarioEnv oneOutput] = 1"
    by (simp add: scenario_parsed oneTree_def document_def toLowerCase_def js_def)
  have ns: "\<not> isStructural (js ''p'')"
    by (simp add: isStructural_def STRUCTURAL_TAGS_def js_def)
  from sanitize_budget[OF h1 h2 h3 h4] ns
  have "countTag scenarioEnv (js ''p'') [parseFromString scenarioEnv oneOutput]
       \<le> ruleBudget scenarioEnv paragraphRules (js ''p'')" by blast
  with h1 h2 l h3 d one ns show ?thesis by (simp add: l)
qed

text \<open>
  Left out of the amended claim: a template element that the rules do not allow.  The
  pass unwraps it, and the nodes of its content, which the snapshot of the elements does
  not hold, are moved into the document without being visited.  With the rules \<open>div\<close>
  and \<open>p\<close> and one pass, the document that the pass makes of
  \<open><div><template><p>a</p><p>b</p></template></div>\<close> holds two \<open>p\<close> under a budget
  of one, and \<open>sanitize\<close> returns the rendering of that document, in every
  environment whose parser reads the input as the tree it denotes.
\<close>

lemma template_budget_slip:
  assumes "parseFromString E templateInput = templateTree"
  shows "sanitizeDocument E (compileRules E paragraphRules (passesConfig 1))
           (parseFromString E templateInput) = Inr bothTree
       \<and> sanitize E templateInput paragraphRules (passesConfig 1)
           = Inr (applyDomPurify E (outerHTML E bothTree)
                   (compileRules E paragraphRules (passesConfig 1)))
       \<and> countTag E (js ''p'') [bothTree] = 2
       \<and> ruleBudget E paragraphRules (js ''p'') = 1
       \<and> \<not> isStructural (js ''p'')"
proof -
  have doc: "sanitizeDocument E (compileRules E paragraphRules (passesConfig 1))
           (parseFromString E templateInput) = Inr bothTree"
    by (simp add: assms compile_paragraphs document_template)
  have out: "sanitize E templateInput paragraphRules (passesConfig 1)
           = Inr (applyDomPurify E (outerHTML E bothTree)
                   (compileRules E paragraphRules (passesConfig 1)))"
    using sanitizeLoop_one_pass[OF once_parsed[OF assms document_template]]
    by (simp add: sanitize_def sanitizeWithPolicy_def compile_paragraphs
          maxPasses_paragraphPolicy)
  have count: "countTag E (js ''p'') [bothTree] = 2"
    by (simp add: bothTree_def paragraphs_def document_def toLowerCase_def js_def)
  have budget: "ruleBudget E paragraphRules (js ''p'') = 1"
    by (simp add: ruleBudget_def paragraphRules_def js_def trim_def isWhiteSpace_def
          toLowerCase_def Let_def)
  have struct: "\<not> isStructural (js ''p'')"
    by (simp add: isStructural_def STRUCTURAL_TAGS_def js_def)
  from doc out count budget struct show ?thesis by blast
qed

section \<open>Claims about the attribute filter\<close>






lemma set_foldl_setAdd: "set (foldl setAdd xs ys) = set xs \<union> set ys"
  by (induction ys arbitrary: xs) (auto simp: setAdd_def)











text \<open>
  Left out of the amended claim: a template element that the rules do not allow.  The
  pass unwraps it, and the elements of its content, which the snapshot does not hold,
  are moved into the document without \<open>filterAttributes\<close> being applied to them.
  With the rules \<open>div\<close>, \<open>a\<close>, \<open>a|onclick\<close>, \<open>a|rel\<close> and \<open>p|title\<close>, JavaScript
  disallowed and one pass, the document that the pass makes of the scenario's text holds
  an \<open>a\<close> with \<open>onclick\<close> and with \<open>title\<close>, which no rule allows on \<open>a\<close>,
  and \<open>sanitize\<close> returns the rendering of that document, in every environment whose
  parser reads the input as the tree it denotes.
\<close>

lemma template_attributes_slip:
  assumes "parseFromString E handlerInput = handlerTree"
  shows "sanitizeDocument E (compileRules E handlerRules (passesConfig 1))
           (parseFromString E handlerInput) = Inr handlerDoc
       \<and> sanitize E handlerInput handlerRules (passesConfig 1)
           = Inr (applyDomPurify E (outerHTML E handlerDoc)
                   (compileRules E handlerRules (passesConfig 1)))
       \<and> (js ''A'', [(js ''onclick'', js ''x''), (js ''title'', js ''t''), (js ''rel'', js ''r'')])
            \<in> set (elementsOf [handlerDoc])
       \<and> \<not> policyAllowJS (compileRules E handlerRules (passesConfig 1))
       \<and> startsWith (toLowerCase E (js ''onclick'')) (js ''on'')
       \<and> toLowerCase E (js ''title'')
            \<notin> allowedAttrSet (compileRules E handlerRules (passesConfig 1))
                 (toLowerCase E (js ''A''))"
proof -
  have doc: "sanitizeDocument E (compileRules E handlerRules (passesConfig 1))
           (parseFromString E handlerInput) = Inr handlerDoc"
    by (simp add: assms compile_handler document_handler)
  have out: "sanitize E handlerInput handlerRules (passesConfig 1)
           = Inr (applyDomPurify E (outerHTML E handlerDoc)
                   (compileRules E handlerRules (passesConfig 1)))"
    using sanitizeLoop_one_pass[OF once_parsed[OF assms document_handler]]
    by (simp add: sanitize_def sanitizeWithPolicy_def compile_handler
          maxPasses_handlerPolicy)
  have el: "(js ''A'', [(js ''onclick'', js ''x''), (js ''title'', js ''t''), (js ''rel'', js ''r'')])
            \<in> set (elementsOf [handlerDoc])"
    by (simp add: handlerDoc_def anchor_def document_def)
  have js: "\<not> policyAllowJS (compileRules E handlerRules (passesConfig 1))"
    unfolding compile_handler
    by (simp add: handlerPolicy_def passesConfig_def policyAllowJS_def)
  have on: "startsWith (toLowerCase E (js ''onclick'')) (js ''on'')"
    by (simp add: startsWith_def toLowerCase_def js_def)
  have title: "toLowerCase E (js ''title'')
            \<notin> allowedAttrSet (compileRules E handlerRules (passesConfig 1))
                 (toLowerCase E (js ''A''))"
    unfolding compile_handler
    by (simp add: handlerPolicy_def passesConfig_def allowedAttrSet_def
          allowedIn_def policyAllowCommon_def toLowerCase_def js_def)
  from doc out el js on title show ?thesis by blast
qed

section \<open>Claims about the CSS filter\<close>

lemma walkHasUrl_iff:
  "walkHasUrl E ns \<longleftrightarrow> (\<exists>name \<in> set (functionNames ns). toLowerCase E name = js ''url'')"
  by (induction E ns rule: walkHasUrl.induct) auto

lemma isSafeCssValue_iff:
  "isSafeCssValue E v \<longleftrightarrow>
     (\<forall>name \<in> set (functionNames (valueParser E v)). toLowerCase E name \<noteq> js ''url'')"
  by (auto simp: isSafeCssValue_def walkHasUrl_iff)

lemma keepDecl_iff:
  "keepDecl E allowedProps d \<longleftrightarrow>
     (\<exists>p v r. d = Decl p v r \<and> toLowerCase E (trim p) \<in> set allowedProps \<and> isSafeCssValue E v)"
  by (cases d) auto

lemma newRules_rule:
  assumes "Rule sel ds \<in> set (newRules E sa sels kids)"
  shows "sel \<in> set sels \<and> (\<forall>d \<in> set ds. \<exists>p v r. d = Decl p v r
            \<and> toLowerCase E (trim p) \<in> allowedIn sa sel \<and> isSafeCssValue E v)"
  using assms
  by (auto simp: newRules_def Let_def allowedIn_def keepDecl_iff split: option.splits if_splits)

lemma filterRootNode_rule:
  assumes "Rule sel ds \<in> set (filterRootNode E sa n)" and "isRule n"
  shows "mapHas sa sel \<and> (\<forall>d \<in> set ds. \<exists>p v r. d = Decl p v r
            \<and> toLowerCase E (trim p) \<in> allowedIn sa sel \<and> isSafeCssValue E v)"
proof -
  from assms(2) obtain s kids where n: "n = Rule s kids" by (cases n) auto
  from assms(1) n
  have "Rule sel ds \<in> set (newRules E sa (filter (mapHas sa) (map trim (ruleSelectors E s))) kids)"
    by (auto simp: Let_def split: if_splits)
  from newRules_rule[OF this] show ?thesis by auto
qed

lemma inline_declarations:
  "\<exists>ds. filterInlineStyle E tag v sa = joinWith (js '';'') (map (inlineDecl E) ds)
        \<and> (\<forall>d \<in> set ds. \<exists>p w r. d = Decl p w r
              \<and> toLowerCase E (trim p) \<in> allowedIn sa (js ''*'') \<union> allowedIn sa tag
              \<and> isSafeCssValue E w)"
proof -
  let ?ap = "inlineAllowedProps tag sa"
  have ap: "set ?ap = allowedIn sa (js ''*'') \<union> allowedIn sa tag"
    by (auto simp: inlineAllowedProps_def allowedIn_def set_foldl_setAdd split: option.splits)
  show ?thesis
  proof (cases "filterInlineStyle E tag v sa = []")
    case True
    then show ?thesis by (intro exI[of _ "[]"]) simp
  next
    case False
    then obtain raws nodes sel kids where
      "filterInlineStyle E tag v sa
         = joinWith (js '';'') (map (inlineDecl E) (filter (keepDecl E ?ap) kids))"
      by (auto simp: filterInlineStyle_def Let_def split: if_splits option.splits cssNode.splits)
    then show ?thesis
      by (intro exI[of _ "filter (keepDecl E ?ap) kids"]) (auto simp: keepDecl_iff ap)
  qed
qed


text \<open>
  Claim C5, as stated (every surviving declaration has an allowlisted pair of selector
  and property, and no surviving value contains \<open>url(\<close>), fails for the text of a
  value: the filter asks the value parser for a function named \<open>url\<close>, and a quoted
  string is no function.  With \<open>content\<close> allowed under \<open>p\<close>, the declaration of
  the scenario's sheet survives with a value that contains \<open>url(\<close>.
\<close>

theorem css_declarations_counterexample:
  "postcssParse scenarioEnv quotedSheet
     = Some ([], [Rule (js ''p'') [Decl (js ''content'') quotedUrl []]])
   \<and> filterCssRoot scenarioEnv [Rule (js ''p'') [Decl (js ''content'') quotedUrl []]]
       [(js ''p'', [js ''content''])]
     = [Rule (js ''p'') [Decl (js ''content'') quotedUrl []]]
   \<and> filterCss scenarioEnv quotedSheet [(js ''p'', [js ''content''])] = quotedSheet
   \<and> includesText quotedUrl (js ''url('')"
  by (simp add: filterCss_def filterCssRoot_def newRules_def mapHas_def isSafeCssValue_def
        scenarioEnv_def quotedSheet_def quotedUrl_def js_def trim_def isWhiteSpace_def
        toLowerCase_def startsWith_def Let_def)

text \<open>
  Beside it, a declaration outside any rule is no rule and is left where it is, whatever
  its property and value.
\<close>

lemma filterCssRoot_root_declaration:
  "filterCssRoot E [Decl p v r] styleAllow = [Decl p v r]"
  by (simp add: filterCssRoot_def)

text \<open>
  In the scenario, with the rules \<open>style\<close> and \<open>style|p|color\<close>, a style element
  whose text is the single declaration \<open>background:url(x)\<close> comes out of the pass as it
  went in.
\<close>

lemma compile_style:
  "compileRules E [js ''style'', js ''style|p|color'']
     \<lparr>allowCommonAttributes = None, allowJavaScript = None, maxPasses = None\<rparr> = stylePolicy"
  by (simp add: compileRules_def compileRule_def stylePolicy_def js_def trim_def
        isWhiteSpace_def toLowerCase_def Let_def addToSet_def mapHas_def setAdd_def)

lemma sanitizeDocument_root_declaration:
  "sanitizeDocument scenarioEnv stylePolicy styleTree = Inr styleTree
   \<and> \<not> isSafeCssValue scenarioEnv (js ''url(x)'')"
  by (simp add: scenario_defs stylePolicy_def styleTree_def filterStyleElement_def
        filterCss_def filterCssRoot_def isSafeCssValue_def quotedSheet_def quotedUrl_def
        cong: sum.case_cong_weak option.case_cong_weak verdict.case_cong_weak)

text \<open>
  Claim C5, amended.  Every declaration inside a style rule of the filtered style sheet
  has a pair of selector and property in the style allowlist: the selector of its rule is
  a key of the allowlist and the trimmed, lower-cased property is allowed under it.  The
  filtered inline style is made of declarations whose property is allowed under \<open>*\<close>
  or under the tag of the element.  In the value of none of these declarations does the
  value parser find a function named \<open>url\<close>, in any case and at any depth.
\<close>

theorem css_declarations_allowlisted:
  "(\<forall>sel ds. Rule sel ds \<in> set (filterCssRoot E nodes styleAllow) \<longrightarrow>
       mapHas styleAllow sel
     \<and> (\<forall>d \<in> set ds. \<exists>p v r. d = Decl p v r
           \<and> toLowerCase E (trim p) \<in> allowedIn styleAllow sel
           \<and> (\<forall>name \<in> set (functionNames (valueParser E v)). toLowerCase E name \<noteq> js ''url'')))
   \<and> (\<exists>ds. filterInlineStyle E tag inlineText styleAllow
               = joinWith (js '';'') (map (inlineDecl E) ds)
         \<and> (\<forall>d \<in> set ds. \<exists>p v r. d = Decl p v r
               \<and> toLowerCase E (trim p) \<in> allowedIn styleAllow (js ''*'') \<union> allowedIn styleAllow tag
               \<and> (\<forall>name \<in> set (functionNames (valueParser E v)).
                     toLowerCase E name \<noteq> js ''url'')))"
proof -
  have block: "\<forall>sel ds. Rule sel ds \<in> set (filterCssRoot E nodes styleAllow) \<longrightarrow>
       mapHas styleAllow sel
     \<and> (\<forall>d \<in> set ds. \<exists>p v r. d = Decl p v r
           \<and> toLowerCase E (trim p) \<in> allowedIn styleAllow sel
           \<and> (\<forall>name \<in> set (functionNames (valueParser E v)). toLowerCase E name \<noteq> js ''url''))"
  proof (intro allI impI)
    fix sel ds assume "Rule sel ds \<in> set (filterCssRoot E nodes styleAllow)"
    then obtain n where n: "Rule sel ds \<in> set (filterRootNode E styleAllow n)"
      by (auto simp: filterCssRoot_def)
    have "isRule n"
    proof (cases n)
      case (Rule s kids)
      then show ?thesis by simp
    qed (use n in auto)
    from filterRootNode_rule[OF n this]
    show "mapHas styleAllow sel
     \<and> (\<forall>d \<in> set ds. \<exists>p v r. d = Decl p v r
           \<and> toLowerCase E (trim p) \<in> allowedIn styleAllow sel
           \<and> (\<forall>name \<in> set (functionNames (valueParser E v)). toLowerCase E name \<noteq> js ''url''))"
      unfolding isSafeCssValue_iff by blast
  qed
  from inline_declarations[of E tag inlineText styleAllow] block show ?thesis
    unfolding isSafeCssValue_iff by blast
qed

text \<open>
  Witness for the amended claim C5: with \<open>color\<close> allowed under \<open>a\<close>, the rule
  \<open>a{color:red;top:0}\<close> keeps \<open>color:red\<close>, in a style sheet and in the inline
  style of an \<open>a\<close>.
\<close>

theorem css_declarations_allowlisted_witness:
  "Rule (js ''a'') [Decl (js ''color'') (js ''red'') []]
     \<in> set (filterCssRoot scenarioEnv
         [Rule (js ''a'') [Decl (js ''color'') (js ''red'') [], Decl (js ''top'') (js ''0'') []]]
         [(js ''a'', [js ''color''])])
   \<and> Decl (js ''color'') (js ''red'') [] \<in> set [Decl (js ''color'') (js ''red'') []]
   \<and> mapHas [(js ''a'', [js ''color''])] (js ''a'')
   \<and> toLowerCase scenarioEnv (trim (js ''color'')) \<in> allowedIn [(js ''a'', [js ''color''])] (js ''a'')
   \<and> filterInlineStyle scenarioEnv (js ''a'') (js ''color:red;top:0'') [(js ''a'', [js ''color''])]
       = js ''color:red''"
proof -
  let ?sa = "[(js ''a'', [js ''color''])]"
  let ?nodes = "[Rule (js ''a'')
                  [Decl (js ''color'') (js ''red'') [], Decl (js ''top'') (js ''0'') []]]"
  have m: "Rule (js ''a'') [Decl (js ''color'') (js ''red'') []]
             \<in> set (filterCssRoot scenarioEnv ?nodes ?sa)"
    by (simp add: filterCssRoot_def newRules_def mapHas_def isSafeCssValue_def scenarioEnv_def
          js_def trim_def isWhiteSpace_def toLowerCase_def Let_def)
  have i: "filterInlineStyle scenarioEnv (js ''a'') (js ''color:red;top:0'') ?sa = js ''color:red''"
    by (simp add: filterInlineStyle_def inlineAllowedProps_def setAdd_def isSafeCssValue_def
          scenarioEnv_def quotedSheet_def quotedUrl_def js_def trim_def isWhiteSpace_def
          toLowerCase_def Let_def)
  from css_declarations_allowlisted[of scenarioEnv ?nodes ?sa "js ''a''" "js ''color:red;top:0''"] m
  have "mapHas ?sa (js ''a'')
      \<and> (\<forall>d \<in> set [Decl (js ''color'') (js ''red'') []]. \<exists>p v r. d = Decl p v r
           \<and> toLowerCase scenarioEnv (trim p) \<in> allowedIn ?sa (js ''a''))"
    by blast
  then have "mapHas ?sa (js ''a'')
      \<and> toLowerCase scenarioEnv (trim (js ''color'')) \<in> allowedIn ?sa (js ''a'')"
    by simp
  with m i show ?thesis by simp
qed

end
